theory Spec2Isabelle
  imports Complex_Main "HOL-Library.Monad_Syntax" "HOL-Library.Multiset"
begin

section \<open>Strings and character classes of the language\<close>

text \<open>
  A JavaScript string is a sequence of UTF-16 code units. The regular expressions of
  \<^verbatim>\<open>getVerificationCode.js\<close> carry no \<^verbatim>\<open>u\<close> flag, so they match code unit by
  code unit. A code unit is written as a natural number (below 65536 in every string the
  program can hold); all the characters that occur in the patterns lie in the Basic
  Multilingual Plane and are one code unit each.
\<close>

type_synonym jsstring = "nat list"

text \<open>An ASCII literal of the source, as code units.\<close>

definition ascii :: "string \<Rightarrow> jsstring" where
  "ascii s = map of_char s"

text \<open>The class \<^verbatim>\<open>\d\<close>: the ten ASCII digits.\<close>

definition isDigit :: "nat \<Rightarrow> bool" where
  "isDigit c = (0x30 \<le> c \<and> c \<le> 0x39)"

text \<open>
  The class \<^verbatim>\<open>\s\<close>, which is also what \<^verbatim>\<open>String.prototype.trim\<close> strips and what
  \<^verbatim>\<open>Number\<close> skips around a numeric literal: WhiteSpace (TAB, VT, FF, ZWNBSP and the
  space separators of Unicode) and LineTerminator (LF, CR, LS, PS).
\<close>

definition isWhiteSpace :: "nat \<Rightarrow> bool" where
  "isWhiteSpace c =
     (c = 0x09 \<or> c = 0x0A \<or> c = 0x0B \<or> c = 0x0C \<or> c = 0x0D \<or> c = 0x20 \<or> c = 0xA0
      \<or> c = 0x1680 \<or> (0x2000 \<le> c \<and> c \<le> 0x200A) \<or> c = 0x2028 \<or> c = 0x2029
      \<or> c = 0x202F \<or> c = 0x205F \<or> c = 0x3000 \<or> c = 0xFEFF)"

text \<open>
  Matching one pattern character under the \<^verbatim>\<open>i\<close> flag (without \<^verbatim>\<open>u\<close>): the input
  unit matches when both canonicalize (\<^verbatim>\<open>toUpperCase\<close> on one code unit, never from a
  non-ASCII unit to an ASCII one) to the same unit. \<open>icase p\<close> lists the units that do so,
  for the pattern characters of this file: an ASCII letter is matched by its two cases,
  U+00F3 (o with acute) by itself and U+00D3, and the space and the three CJK ideographs
  only by themselves.
\<close>

definition icase :: "nat \<Rightarrow> nat list" where
  "icase p =
     (if 0x61 \<le> p \<and> p \<le> 0x7A then [p, p - 0x20]
      else if 0x41 \<le> p \<and> p \<le> 0x5A then [p, p + 0x20]
      else if p = 0xF3 then [0xF3, 0xD3]
      else [p])"

section \<open>extractVerificationCode\<close>

text \<open>
  \<^verbatim>\<open>subject.match(/(?:L1|L2|L3)\s*(\d{6})/i)\<close> with the three lead-in phrases
  L1 = U+4EE3 U+7801 U+4E3A, L2 = \<^verbatim>\<open>code is\<close>, L3 = \<^verbatim>\<open>c\<close> U+00F3 \<^verbatim>\<open>digo es\<close>.
  The matcher is the backtracking one of the language: the leftmost start position wins,
  at a position the alternatives are tried in order, \<^verbatim>\<open>\s*\<close> is greedy and gives
  units back one at a time, and the result is capture group 1.
\<close>

definition leadIns :: "jsstring list" where
  "leadIns = [[0x4EE3, 0x7801, 0x4E3A], ascii ''code is'', ascii ''c'' @ [0xF3] @ ascii ''digo es'']"

text \<open>A literal, case-insensitively, at the front of the input: the rest of the input.\<close>

fun matchLiteral :: "jsstring \<Rightarrow> jsstring \<Rightarrow> jsstring option" where
  "matchLiteral [] s = Some s"
| "matchLiteral (p # ps) [] = None"
| "matchLiteral (p # ps) (c # cs) =
     (if c \<in> set (icase p) then matchLiteral ps cs else None)"

text \<open>\<^verbatim>\<open>(\d{6})\<close> at the front of the input: the captured six digits.\<close>

definition matchDigits6 :: "jsstring \<Rightarrow> jsstring option" where
  "matchDigits6 s =
     (if 6 \<le> length s \<and> list_all isDigit (take 6 s) then Some (take 6 s) else None)"

text \<open>\<^verbatim>\<open>\s*(\d{6})\<close>: as much white space as possible first, then less.\<close>

fun matchSpacesCode :: "jsstring \<Rightarrow> jsstring option" where
  "matchSpacesCode [] = matchDigits6 []"
| "matchSpacesCode (c # cs) =
     (if isWhiteSpace c
      then (case matchSpacesCode cs of
              Some code \<Rightarrow> Some code
            | None \<Rightarrow> matchDigits6 (c # cs))
      else matchDigits6 (c # cs))"

text \<open>The alternatives in order, each followed by the rest of the pattern.\<close>

fun matchAlternatives :: "jsstring list \<Rightarrow> jsstring \<Rightarrow> jsstring option" where
  "matchAlternatives [] s = None"
| "matchAlternatives (p # ps) s =
     (case matchLiteral p s of
        None \<Rightarrow> matchAlternatives ps s
      | Some rest \<Rightarrow>
          (case matchSpacesCode rest of
             None \<Rightarrow> matchAlternatives ps s
           | Some code \<Rightarrow> Some code))"

text \<open>The start positions from left to right, the end of the input included.\<close>

fun searchCode :: "jsstring \<Rightarrow> jsstring option" where
  "searchCode [] = matchAlternatives leadIns []"
| "searchCode (c # cs) =
     (case matchAlternatives leadIns (c # cs) of
        Some code \<Rightarrow> Some code
      | None \<Rightarrow> searchCode cs)"

text \<open>\<^verbatim>\<open>return match ? match[1] : null\<close>; \<open>None\<close> is \<^verbatim>\<open>null\<close>.\<close>

definition extractVerificationCode :: "jsstring \<Rightarrow> jsstring option" where
  "extractVerificationCode subject = searchCode subject"

section \<open>Numbers and values of the language\<close>

text \<open>
  A JavaScript number is an IEEE double. The model keeps the three special values apart
  and takes a finite double as the real number it denotes; arithmetic on finite values is
  exact (rounding, overflow to an infinity and the sign of zero are not modelled), and
  the special values follow the IEEE rules that the operators of the language apply.
\<close>

datatype jsnum = NaN | NegInf | Fin real | PosInf

text \<open>\<^verbatim>\<open>a < b\<close> and \<^verbatim>\<open>a <= b\<close>: false as soon as one side is NaN.\<close>

fun js_lt :: "jsnum \<Rightarrow> jsnum \<Rightarrow> bool" where
  "js_lt NaN b = False"
| "js_lt a NaN = False"
| "js_lt (Fin a) (Fin b) = (a < b)"
| "js_lt a NegInf = False"
| "js_lt NegInf b = True"
| "js_lt PosInf b = False"
| "js_lt (Fin a) PosInf = True"

fun js_le :: "jsnum \<Rightarrow> jsnum \<Rightarrow> bool" where
  "js_le NaN b = False"
| "js_le a NaN = False"
| "js_le (Fin a) (Fin b) = (a \<le> b)"
| "js_le NegInf b = True"
| "js_le a PosInf = True"
| "js_le a NegInf = False"
| "js_le PosInf (Fin b) = False"

text \<open>\<^verbatim>\<open>-a\<close>, \<^verbatim>\<open>a - b\<close> and \<^verbatim>\<open>a * b\<close>.\<close>

fun js_neg :: "jsnum \<Rightarrow> jsnum" where
  "js_neg NaN = NaN"
| "js_neg NegInf = PosInf"
| "js_neg (Fin a) = Fin (- a)"
| "js_neg PosInf = NegInf"

fun js_sub :: "jsnum \<Rightarrow> jsnum \<Rightarrow> jsnum" where
  "js_sub NaN b = NaN"
| "js_sub a NaN = NaN"
| "js_sub (Fin a) (Fin b) = Fin (a - b)"
| "js_sub PosInf PosInf = NaN"
| "js_sub NegInf NegInf = NaN"
| "js_sub PosInf b = PosInf"
| "js_sub NegInf b = NegInf"
| "js_sub (Fin a) PosInf = NegInf"
| "js_sub (Fin a) NegInf = PosInf"

definition infTimes :: "jsnum \<Rightarrow> real \<Rightarrow> jsnum" where
  "infTimes i x = (if x = 0 then NaN else if 0 < x then i else js_neg i)"

fun js_mul :: "jsnum \<Rightarrow> jsnum \<Rightarrow> jsnum" where
  "js_mul NaN b = NaN"
| "js_mul a NaN = NaN"
| "js_mul (Fin a) (Fin b) = Fin (a * b)"
| "js_mul (Fin a) b = infTimes b a"
| "js_mul a (Fin b) = infTimes a b"
| "js_mul PosInf b = b"
| "js_mul NegInf b = js_neg b"

text \<open>
  The values the subject and the timestamp of a message in a decoded JSON body can hold,
  and \<^verbatim>\<open>undefined\<close> for a missing field. (Objects and arrays are left out: the message
  format has none there.)
\<close>

datatype jsval = VUndefined | VNull | VBool bool | VNum jsnum | VStr jsstring

subsection \<open>\<^verbatim>\<open>Number(value)\<close>\<close>

definition isHexDigit :: "nat \<Rightarrow> bool" where
  "isHexDigit c = (isDigit c \<or> (0x61 \<le> c \<and> c \<le> 0x66) \<or> (0x41 \<le> c \<and> c \<le> 0x46))"

definition hexVal :: "nat \<Rightarrow> nat" where
  "hexVal c = (if isDigit c then c - 0x30 else if 0x61 \<le> c then c - 0x57 else c - 0x37)"

text \<open>The value of a digit string in a radix.\<close>

definition radixValue :: "nat \<Rightarrow> jsstring \<Rightarrow> nat" where
  "radixValue b ds = foldl (\<lambda>a c. a * b + hexVal c) 0 ds"

text \<open>ExponentPart, or nothing: the exponent.\<close>

definition exponentPart :: "jsstring \<Rightarrow> int option" where
  "exponentPart s =
     (case s of
        [] \<Rightarrow> Some 0
      | e # r \<Rightarrow>
          if e = 0x65 \<or> e = 0x45 then
            (let neg = (case r of c # _ \<Rightarrow> c = 0x2D | [] \<Rightarrow> False);
                 ds = (case r of c # r' \<Rightarrow> if c = 0x2B \<or> c = 0x2D then r' else r | [] \<Rightarrow> [])
             in if ds \<noteq> [] \<and> list_all isDigit ds
                then Some (if neg then - int (radixValue 10 ds) else int (radixValue 10 ds))
                else None)
          else None)"

definition scale10 :: "real \<Rightarrow> int \<Rightarrow> real" where
  "scale10 m e = (if 0 \<le> e then m * 10 ^ nat e else m / 10 ^ nat (- e))"

text \<open>StrUnsignedDecimalLiteral without the \<^verbatim>\<open>Infinity\<close> case.\<close>

definition unsignedDecimal :: "jsstring \<Rightarrow> real option" where
  "unsignedDecimal s =
     (let ip = takeWhile isDigit s; r1 = dropWhile isDigit s
      in case r1 of
           c # r2 \<Rightarrow>
             if c = 0x2E then
               (let fp = takeWhile isDigit r2; r3 = dropWhile isDigit r2
                in if ip = [] \<and> fp = [] then None
                   else map_option
                          (scale10 (real (radixValue 10 ip)
                                    + real (radixValue 10 fp) / 10 ^ length fp))
                          (exponentPart r3))
             else if ip = [] then None
             else map_option (scale10 (real (radixValue 10 ip))) (exponentPart r1)
         | [] \<Rightarrow> if ip = [] then None else Some (real (radixValue 10 ip)))"

definition strUnsignedDecimalLiteral :: "jsstring \<Rightarrow> jsnum" where
  "strUnsignedDecimalLiteral s =
     (if s = ascii ''Infinity'' then PosInf
      else case unsignedDecimal s of None \<Rightarrow> NaN | Some x \<Rightarrow> Fin x)"

text \<open>NonDecimalIntegerLiteral: \<^verbatim>\<open>0x\<close>, \<^verbatim>\<open>0o\<close>, \<^verbatim>\<open>0b\<close> and digits, unsigned.\<close>

definition nonDecimalLiteral :: "jsstring \<Rightarrow> nat option" where
  "nonDecimalLiteral s =
     (case s of
        z # x # ds \<Rightarrow>
          if z = 0x30 \<and> ds \<noteq> [] then
            (if (x = 0x78 \<or> x = 0x58) \<and> list_all isHexDigit ds then Some (radixValue 16 ds)
             else if (x = 0x6F \<or> x = 0x4F) \<and> list_all (\<lambda>c. 0x30 \<le> c \<and> c \<le> 0x37) ds
               then Some (radixValue 8 ds)
             else if (x = 0x62 \<or> x = 0x42) \<and> list_all (\<lambda>c. c = 0x30 \<or> c = 0x31) ds
               then Some (radixValue 2 ds)
             else None)
          else None
      | _ \<Rightarrow> None)"

definition trim :: "jsstring \<Rightarrow> jsstring" where
  "trim s = rev (dropWhile isWhiteSpace (rev (dropWhile isWhiteSpace s)))"

text \<open>
  StringToNumber: white space around, the empty string is 0, no literal is NaN. The value
  of a literal is its exact value (the language takes the double nearest to it).
\<close>

definition StringToNumber :: "jsstring \<Rightarrow> jsnum" where
  "StringToNumber s =
     (let t = trim s
      in if t = [] then Fin 0
         else case nonDecimalLiteral t of
                Some n \<Rightarrow> Fin (real n)
              | None \<Rightarrow>
                  (case t of
                     c # r \<Rightarrow>
                       if c = 0x2B then strUnsignedDecimalLiteral r
                       else if c = 0x2D then js_neg (strUnsignedDecimalLiteral r)
                       else strUnsignedDecimalLiteral t
                   | [] \<Rightarrow> NaN))"

fun Number :: "jsval \<Rightarrow> jsnum" where
  "Number VUndefined = NaN"
| "Number VNull = Fin 0"
| "Number (VBool b) = Fin (if b then 1 else 0)"
| "Number (VNum n) = n"
| "Number (VStr s) = StringToNumber s"

section \<open>Dates\<close>

text \<open>
  \<^verbatim>\<open>new Date(str).getTime()\<close> is \<^verbatim>\<open>Date.parse(str)\<close>. The language fixes its value on
  the date-time string format; on every other string an engine may apply heuristics of its
  own, and a string without an offset is read in the local time zone of the process. The
  model computes the mandated value for the complete form with an explicit offset,
  \<^verbatim>\<open>YYYY-MM-DDTHH:mm:ss\<close>, optionally \<^verbatim>\<open>.sss\<close>, then \<^verbatim>\<open>Z\<close> or \<^verbatim>\<open>+HH:mm\<close> or
  \<^verbatim>\<open>-HH:mm\<close>, with every field in its range, and leaves all other strings to the engine:
  the parameter \<open>implDateParse\<close> of the environment.
\<close>

text \<open>Exactly \<open>n\<close> decimal digits at the front: their value and the rest.\<close>

definition takeDigits :: "nat \<Rightarrow> jsstring \<Rightarrow> (nat \<times> jsstring) option" where
  "takeDigits n s =
     (if n \<le> length s \<and> list_all isDigit (take n s)
      then Some (radixValue 10 (take n s), drop n s) else None)"

definition expect :: "nat \<Rightarrow> jsstring \<Rightarrow> jsstring option" where
  "expect c s = (case s of [] \<Rightarrow> None | x # r \<Rightarrow> if x = c then Some r else None)"

text \<open>DayFromYear, InLeapYear and the day within the year, as ECMA-262 defines them.\<close>

definition dayFromYear :: "int \<Rightarrow> int" where
  "dayFromYear y =
     365 * (y - 1970) + (y - 1969) div 4 - (y - 1901) div 100 + (y - 1601) div 400"

definition inLeapYear :: "int \<Rightarrow> bool" where
  "inLeapYear y = (y mod 4 = 0 \<and> (y mod 100 \<noteq> 0 \<or> y mod 400 = 0))"

definition daysInMonth :: "int \<Rightarrow> nat \<Rightarrow> nat" where
  "daysInMonth y m =
     (if m = 2 then (if inLeapYear y then 29 else 28)
      else if m = 4 \<or> m = 6 \<or> m = 9 \<or> m = 11 then 30 else 31)"

definition daysBeforeMonth :: "int \<Rightarrow> nat \<Rightarrow> int" where
  "daysBeforeMonth y m =
     int ([0, 31, 59, 90, 120, 151, 181, 212, 243, 273, 304, 334] ! (m - 1))
     + (if inLeapYear y \<and> 2 < m then 1 else 0)"

text \<open>The time value of a civil date and time of day at an offset of \<open>off\<close> minutes.\<close>

definition timeValue :: "nat \<Rightarrow> nat \<Rightarrow> nat \<Rightarrow> nat \<Rightarrow> nat \<Rightarrow> nat \<Rightarrow> nat \<Rightarrow> int \<Rightarrow> int" where
  "timeValue y mo d h mi sec ms off =
     (dayFromYear (int y) + daysBeforeMonth (int y) mo + int d - 1) * 86400000
     + int h * 3600000 + int mi * 60000 + int sec * 1000 + int ms - off * 60000"

text \<open>The offset of the format, in minutes east of Greenwich.\<close>

definition isoOffset :: "jsstring \<Rightarrow> int option" where
  "isoOffset s =
     (if s = [0x5A] then Some 0
      else case s of
             [] \<Rightarrow> None
           | sg # r \<Rightarrow>
               if sg = 0x2B \<or> sg = 0x2D then
                 do {
                   (hh, r1) \<leftarrow> takeDigits 2 r;
                   r2 \<leftarrow> expect 0x3A r1;
                   (mm, r3) \<leftarrow> takeDigits 2 r2;
                   if r3 = [] \<and> hh \<le> 23 \<and> mm \<le> 59
                   then Some ((if sg = 0x2D then - 1 else 1) * int (hh * 60 + mm))
                   else None
                 }
               else None)"

text \<open>
  The part of the format before the offset, \<^verbatim>\<open>YYYY-MM-DDTHH:mm:ss\<close> and optionally
  \<^verbatim>\<open>.sss\<close>, with every field in its range: year, month, day, hour, minute, second and
  millisecond.
\<close>

definition isoBody :: "jsstring \<Rightarrow> (nat \<times> nat \<times> nat \<times> nat \<times> nat \<times> nat \<times> nat) option" where
  "isoBody s =
     do {
       (y, r) \<leftarrow> takeDigits 4 s;
       r \<leftarrow> expect 0x2D r;
       (mo, r) \<leftarrow> takeDigits 2 r;
       r \<leftarrow> expect 0x2D r;
       (d, r) \<leftarrow> takeDigits 2 r;
       r \<leftarrow> expect 0x54 r;
       (h, r) \<leftarrow> takeDigits 2 r;
       r \<leftarrow> expect 0x3A r;
       (mi, r) \<leftarrow> takeDigits 2 r;
       r \<leftarrow> expect 0x3A r;
       (sec, r) \<leftarrow> takeDigits 2 r;
       (ms, r) \<leftarrow> (case r of
                      [] \<Rightarrow> Some (0, r)
                    | c # r' \<Rightarrow> if c = 0x2E then takeDigits 3 r' else None);
       if r = [] \<and> 1 \<le> mo \<and> mo \<le> 12 \<and> 1 \<le> d \<and> d \<le> daysInMonth (int y) mo
          \<and> h \<le> 23 \<and> mi \<le> 59 \<and> sec \<le> 59
       then Some (y, mo, d, h, mi, sec, ms)
       else None
     }"

text \<open>
  The whole format: the offset is the final \<^verbatim>\<open>Z\<close>, or else the last six units; what
  stands before it is the date and time.
\<close>

definition isoDateTime :: "jsstring \<Rightarrow> int option" where
  "isoDateTime s =
     (let k = (if s \<noteq> [] \<and> last s = 0x5A then length s - 1 else length s - 6)
      in do {
           off \<leftarrow> isoOffset (drop k s);
           (y, mo, d, h, mi, sec, ms) \<leftarrow> isoBody (take k s);
           Some (timeValue y mo d h mi sec ms off)
         })"

definition Date_parse :: "(jsstring \<Rightarrow> jsnum) \<Rightarrow> jsstring \<Rightarrow> jsnum" where
  "Date_parse impl s =
     (case isoDateTime s of Some t \<Rightarrow> Fin (real_of_int t) | None \<Rightarrow> impl s)"

section \<open>normalizeTimestamp\<close>

text \<open>
  \<^verbatim>\<open>/(\+|-)\d{2}:?\d{2}|Z$/i.test(str)\<close>: somewhere in the string a sign, two digits,
  an optional colon and two digits; or a \<^verbatim>\<open>Z\<close> of either case as the last unit.
\<close>

definition offsetAt :: "jsstring \<Rightarrow> bool" where
  "offsetAt s =
     (case s of
        [] \<Rightarrow> False
      | sg # r \<Rightarrow>
          (sg = 0x2B \<or> sg = 0x2D) \<and> 2 \<le> length r \<and> list_all isDigit (take 2 r)
          \<and> (let r2 = drop 2 r;
                  r3 = (case r2 of [] \<Rightarrow> [] | c # r' \<Rightarrow> if c = 0x3A then r' else r2)
              in 2 \<le> length r3 \<and> list_all isDigit (take 2 r3)))"

fun hasOffset :: "jsstring \<Rightarrow> bool" where
  "hasOffset [] = False"
| "hasOffset (c # cs) =
     (offsetAt (c # cs) \<or> (cs = [] \<and> (c = 0x5A \<or> c = 0x7A)) \<or> hasOffset cs)"

text \<open>
  \<^verbatim>\<open>/^UTC(?:(\+|-)(\d{2})(?::?(\d{2}))?)?$/.exec(tz)\<close>: \<open>None\<close> when the string does
  not match, else the capture groups 1, 2 and 3, each \<open>None\<close> when it took no part.
\<close>

definition execTz :: "jsstring \<Rightarrow> (jsstring option \<times> jsstring option \<times> jsstring option) option" where
  "execTz tz =
     (if take 3 tz \<noteq> ascii ''UTC'' then None
      else case drop 3 tz of
             [] \<Rightarrow> Some (None, None, None)
           | sg # r \<Rightarrow>
               if (sg = 0x2B \<or> sg = 0x2D) \<and> 2 \<le> length r \<and> list_all isDigit (take 2 r) then
                 (let r2 = drop 2 r;
                      r3 = (case r2 of [] \<Rightarrow> [] | c # r' \<Rightarrow> if c = 0x3A then r' else r2)
                  in if r2 = [] then Some (Some [sg], Some (take 2 r), None)
                     else if length r3 = 2 \<and> list_all isDigit r3
                       then Some (Some [sg], Some (take 2 r), Some r3)
                     else None)
               else None)"

text \<open>
  \<^verbatim>\<open>Number(match[k] || 0)\<close> for a group that is two digits or took no part, and
  \<^verbatim>\<open>String(n).padStart(2, "0")\<close> for the resulting number, which is below 100.
\<close>

definition groupNumber :: "jsstring option \<Rightarrow> nat" where
  "groupNumber g = (case g of None \<Rightarrow> 0 | Some ds \<Rightarrow> radixValue 10 ds)"

definition pad2 :: "nat \<Rightarrow> jsstring" where
  "pad2 n = [0x30 + n div 10, 0x30 + n mod 10]"

text \<open>\<^verbatim>\<open>str.replace(" ", "T")\<close>: the first space only.\<close>

fun replaceSpace :: "jsstring \<Rightarrow> jsstring" where
  "replaceSpace [] = []"
| "replaceSpace (c # cs) = (if c = 0x20 then 0x54 # cs else c # replaceSpace cs)"

text \<open>
  \<^verbatim>\<open>String(time || "")\<close> on a value whose \<^verbatim>\<open>Number\<close> is NaN: such a value is
  \<^verbatim>\<open>undefined\<close> or NaN, which are falsy, or a string.
\<close>

definition stringOrEmpty :: "jsval \<Rightarrow> jsstring" where
  "stringOrEmpty time = (case time of VStr s \<Rightarrow> s | _ \<Rightarrow> [])"

definition UTC :: jsstring where
  "UTC = ascii ''UTC''"

text \<open>
  \<open>impl\<close> is the engine's own date parsing (see above). The default of the parameter
  \<^verbatim>\<open>tz\<close> is the constant \<open>UTC\<close>, passed by the callers that omit the argument. The
  variable \<^verbatim>\<open>offsetMinutes\<close> of the source is never read and is left out.
\<close>

definition normalizeTimestamp :: "(jsstring \<Rightarrow> jsnum) \<Rightarrow> jsval \<Rightarrow> jsstring \<Rightarrow> jsnum" where
  "normalizeTimestamp impl time tz =
     (let raw = Number time
      in if raw \<noteq> NaN then (if js_lt raw (Fin 1000000000000) then js_mul raw (Fin 1000) else raw)
         else
           let str = trim (stringOrEmpty time)
           in if hasOffset str then Date_parse impl str
              else case execTz tz of
                     None \<Rightarrow> Date_parse impl str
                   | Some (g1, g2, g3) \<Rightarrow>
                       let sign = (if g1 = Some [0x2D] then - 1 else (1::int));
                           hours = groupNumber g2;
                           minutes = groupNumber g3;
                           isoLike = replaceSpace str;
                           offsetStr = (if sign = 1 then [0x2B] else [0x2D])
                                       @ pad2 hours @ [0x3A] @ pad2 minutes
                       in Date_parse impl (isoLike @ offsetStr))"

section \<open>Messages, the outside world and the environment\<close>

text \<open>
  One entry of the list the mail provider returns: an object. Its \<^verbatim>\<open>subject\<close> and
  \<^verbatim>\<open>createTime\<close> are whatever the body carries there, a string or not (\<open>VUndefined\<close>
  when the field is missing); \<^verbatim>\<open>name\<close> and \<^verbatim>\<open>sendEmail\<close> may be missing (\<open>None\<close>).
\<close>

record email =
  subject :: jsval
  createTime :: jsval
  name :: "jsstring option"
  sendEmail :: "jsstring option"

text \<open>
  The object \<^verbatim>\<open>findLatestVerificationCode\<close> returns, with the fields \<^verbatim>\<open>code\<close>,
  \<^verbatim>\<open>time\<close>, \<^verbatim>\<open>subject\<close> and \<^verbatim>\<open>from\<close> (prefixed here, as \<open>subject\<close> is a field of
  \<open>email\<close> and \<^verbatim>\<open>from\<close> is a keyword).
\<close>

record verificationInfo =
  v_code :: jsstring
  v_time :: jsval
  v_subject :: jsstring
  v_from :: "jsstring option"

text \<open>
  The decoded response body \<^verbatim>\<open>payload\<close> with \<^verbatim>\<open>payload.data\<close> (absent: \<open>None\<close>) and
  \<^verbatim>\<open>payload.data.list\<close> (absent: \<open>None\<close>), and the response of \<^verbatim>\<open>fetch\<close>; the field
  \<open>json\<close> is \<^verbatim>\<open>JSON.parse\<close> of the body text, \<open>None\<close> when that throws.
\<close>

record emailData =
  list :: "email list option"

record payload =
  code :: jsval
  message :: "jsstring option"
  data :: "emailData option"

record response =
  ok :: bool
  status :: nat
  json :: "payload option"

text \<open>Every \<^verbatim>\<open>throw\<close> and rejection on the path of the poll loop.\<close>

datatype error =
    FetchUnavailable
  | FetchRejected
  | HttpStatus nat
  | BodyNotJson
  | ProviderFailure jsstring
  | TypeError

text \<open>The lines written with \<^verbatim>\<open>console.log\<close> in the loop, with the values they print.\<close>

datatype logline =
    LogAttempt nat nat
  | LogNoMail
  | LogLatest jsval jsnum jsnum
  | LogUnparsable
  | LogNotRecent
  | LogNoCode
  | LogCodeStale jsval jsnum
  | LogFoundHeader
  | LogRule
  | LogCode jsstring
  | LogReceived jsval
  | LogSender "jsstring option"
  | LogSubject jsstring
  | LogExhausted

text \<open>
  What the program does to the outside, in order: a console line, a GET request for the
  list of an account (account, size, token), a sleep of so many milliseconds, a prompt.
\<close>

datatype event =
    ConsoleLog logline
  | HttpGet nat nat jsstring
  | Sleep nat
  | Prompt

text \<open>
  The state threaded through the program: how often the clock was read, how many requests
  were sent, and the events so far.
\<close>

record world =
  ticks :: nat
  fetches :: nat
  trace :: "event list"

text \<open>
  Everything the program takes from outside: the configured \<^verbatim>\<open>timezone\<close>
  (\<^verbatim>\<open>getCredentials().timezone\<close>, or \<^verbatim>\<open>"UTC"\<close> when that is missing), the engine's own
  date parsing, the reading of the clock at its k-th call of \<^verbatim>\<open>Date.now()\<close> (epoch
  milliseconds), whether a global \<^verbatim>\<open>fetch\<close> exists, the outcome of the k-th request
  (\<open>None\<close>: \<^verbatim>\<open>fetch\<close> rejects), and the order the engine's sort gives a list whose
  comparator is not consistent (see \<open>arraySort\<close> below).
\<close>

record env =
  timezone :: jsstring
  implDateParse :: "jsstring \<Rightarrow> jsnum"
  clock :: "nat \<Rightarrow> real"
  fetchAvailable :: bool
  network :: "nat \<Rightarrow> response option"
  engineOrder :: "email list \<Rightarrow> nat list"

definition consoleLog :: "logline \<Rightarrow> world \<Rightarrow> world" where
  "consoleLog l w = w\<lparr>trace := trace w @ [ConsoleLog l]\<rparr>"

definition Date_now :: "env \<Rightarrow> world \<Rightarrow> jsnum \<times> world" where
  "Date_now e w = (Fin (clock e (ticks w)), w\<lparr>ticks := Suc (ticks w)\<rparr>)"

text \<open>\<^verbatim>\<open>await new Promise(resolve => setTimeout(resolve, ms))\<close>.\<close>

definition sleep :: "nat \<Rightarrow> world \<Rightarrow> world" where
  "sleep ms w = w\<lparr>trace := trace w @ [Sleep ms]\<rparr>"

text \<open>
  Modelled from the spec: \<^verbatim>\<open>prompt\<close> is defined in \<^verbatim>\<open>../selectAccount\<close>, which is not
  among the sources. The spec places the interactive prompt layer outside the core, as a
  thin input/output wrapper without algorithmic content; here it is an event that returns.
\<close>

definition prompt :: "world \<Rightarrow> world" where
  "prompt w = w\<lparr>trace := trace w @ [Prompt]\<rparr>"

section \<open>isWithinMinutes\<close>

text \<open>
  \<^verbatim>\<open>minutes\<close> is a number (3 at both call sites). The clock is read only when the
  timestamp is not NaN.
\<close>

definition isWithinMinutes :: "env \<Rightarrow> jsval \<Rightarrow> jsnum \<Rightarrow> world \<Rightarrow> bool \<times> world" where
  "isWithinMinutes e time minutes w =
     (let ts = normalizeTimestamp (implDateParse e) time (timezone e)
      in if ts = NaN then (False, w)
         else case Date_now e w of
                (now, w') \<Rightarrow>
                  (js_le (js_sub now ts) (js_mul (js_mul minutes (Fin 60)) (Fin 1000)), w'))"

section \<open>fetchEmailList\<close>

text \<open>The text \<^verbatim>\<open>payload.message || D\<close> with the default D = U+672A U+77E5 U+9519 U+8BEF.\<close>

definition providerMessage :: "jsstring option \<Rightarrow> jsstring" where
  "providerMessage m =
     (case m of
        None \<Rightarrow> [0x672A, 0x77E5, 0x9519, 0x8BEF]
      | Some t \<Rightarrow> if t = [] then [0x672A, 0x77E5, 0x9519, 0x8BEF] else t)"

definition fetchEmailList ::
  "env \<Rightarrow> jsstring \<Rightarrow> nat \<Rightarrow> nat \<Rightarrow> world \<Rightarrow> (error + emailData option) \<times> world" where
  "fetchEmailList e token accountId size_n w =
     (if \<not> fetchAvailable e then (Inl FetchUnavailable, w)
      else
        let w' = w\<lparr>fetches := Suc (fetches w),
                   trace := trace w @ [HttpGet accountId size_n token]\<rparr>
        in case network e (fetches w) of
             None \<Rightarrow> (Inl FetchRejected, w')
           | Some resp \<Rightarrow>
               if \<not> ok resp then (Inl (HttpStatus (status resp)), w')
               else (case json resp of
                       None \<Rightarrow> (Inl BodyNotJson, w')
                     | Some p \<Rightarrow>
                         if code p \<noteq> VNum (Fin 200)
                         then (Inl (ProviderFailure (providerMessage (message p))), w')
                         else (Inr (data p), w')))"

section \<open>findLatestVerificationCode\<close>

text \<open>\<^verbatim>\<open>email.name || email.sendEmail\<close>: a missing or empty name is falsy.\<close>

definition senderOf :: "email \<Rightarrow> jsstring option" where
  "senderOf m =
     (case name m of
        None \<Rightarrow> sendEmail m
      | Some n \<Rightarrow> if n = [] then sendEmail m else Some n)"

text \<open>
  The list is never \<^verbatim>\<open>null\<close> or empty where the loop calls the function. The call
  \<^verbatim>\<open>subject.match(...)\<close> inside \<^verbatim>\<open>extractVerificationCode\<close> throws a TypeError when the
  subject of the message at hand is not a string; the messages behind the first one with
  a code are not looked at.
\<close>

fun findLatestVerificationCode :: "email list \<Rightarrow> error + verificationInfo option" where
  "findLatestVerificationCode [] = Inr None"
| "findLatestVerificationCode (m # ms) =
     (case subject m of
        VStr s \<Rightarrow>
          (case extractVerificationCode s of
             Some c \<Rightarrow>
               Inr (Some \<lparr>v_code = c, v_time = createTime m, v_subject = s,
                          v_from = senderOf m\<rparr>)
           | None \<Rightarrow> findLatestVerificationCode ms)
      | _ \<Rightarrow> Inl TypeError)"

section \<open>The poll loop of getVerificationCode\<close>

text \<open>
  \<^verbatim>\<open>[...list].sort(compareFn)\<close>. The language fixes the result of a sort only for a
  comparator that is consistent on the elements: no result is NaN, every element equals
  itself, equality is symmetric, and equality, less and greater are transitive. Then the
  result is the one permutation that is ordered by the comparator and keeps the elements
  it calls equal in their order (the sort is stable).
\<close>

definition ltC :: "('a \<Rightarrow> 'a \<Rightarrow> jsnum) \<Rightarrow> 'a \<Rightarrow> 'a \<Rightarrow> bool" where
  "ltC cmp a b = js_lt (cmp a b) (Fin 0)"

definition eqC :: "('a \<Rightarrow> 'a \<Rightarrow> jsnum) \<Rightarrow> 'a \<Rightarrow> 'a \<Rightarrow> bool" where
  "eqC cmp a b = (cmp a b = Fin 0)"

definition gtC :: "('a \<Rightarrow> 'a \<Rightarrow> jsnum) \<Rightarrow> 'a \<Rightarrow> 'a \<Rightarrow> bool" where
  "gtC cmp a b = js_lt (Fin 0) (cmp a b)"

definition consistentOn :: "('a \<Rightarrow> 'a \<Rightarrow> jsnum) \<Rightarrow> 'a list \<Rightarrow> bool" where
  "consistentOn cmp xs =
     (\<forall>a\<in>set xs. \<forall>b\<in>set xs.
        cmp a b \<noteq> NaN \<and> eqC cmp a a \<and> (eqC cmp a b \<longrightarrow> eqC cmp b a)
        \<and> (\<forall>c\<in>set xs.
              (eqC cmp a b \<and> eqC cmp b c \<longrightarrow> eqC cmp a c)
              \<and> (ltC cmp a b \<and> ltC cmp b c \<longrightarrow> ltC cmp a c)
              \<and> (gtC cmp a b \<and> gtC cmp b c \<longrightarrow> gtC cmp a c)))"

text \<open>
  The stable sort, by insertion from the right end: an element moves behind a later one
  only when the comparator puts it there (a result above 0).
\<close>

fun insertSorted :: "('a \<Rightarrow> 'a \<Rightarrow> jsnum) \<Rightarrow> 'a \<Rightarrow> 'a list \<Rightarrow> 'a list" where
  "insertSorted cmp x [] = [x]"
| "insertSorted cmp x (y # ys) =
     (if gtC cmp x y then y # insertSorted cmp x ys else x # y # ys)"

definition stableSort :: "('a \<Rightarrow> 'a \<Rightarrow> jsnum) \<Rightarrow> 'a list \<Rightarrow> 'a list" where
  "stableSort cmp xs = foldr (insertSorted cmp) xs []"

text \<open>
  On a comparator that is not consistent (here: as soon as a sort key is NaN or infinite,
  since the difference of a key with itself then is NaN) the language leaves the order to
  the engine; an engine's sort still only rearranges the elements. The model takes the
  engine's choice as a parameter: a list of positions, at which the elements are put in
  one after the other, from the last to the first. Whatever the positions are the result
  is a permutation of the elements, and every permutation is the result of some choice.
\<close>

definition insertAt :: "nat \<Rightarrow> 'a \<Rightarrow> 'a list \<Rightarrow> 'a list" where
  "insertAt p x ys = take p ys @ x # drop p ys"

fun arrange :: "nat list \<Rightarrow> 'a list \<Rightarrow> 'a list" where
  "arrange ps [] = []"
| "arrange ps (x # xs) =
     insertAt (case ps of [] \<Rightarrow> 0 | p # _ \<Rightarrow> p) x (arrange (tl ps) xs)"

definition arraySort :: "nat list \<Rightarrow> ('a \<Rightarrow> 'a \<Rightarrow> jsnum) \<Rightarrow> 'a list \<Rightarrow> 'a list" where
  "arraySort choice cmp xs =
     (if consistentOn cmp xs then stableSort cmp xs else arrange choice xs)"

text \<open>
  \<^verbatim>\<open>(a, b) => normalizeTimestamp(b.createTime) - normalizeTimestamp(a.createTime)\<close>:
  no timezone argument, so the default. \<open>sortKey\<close> is the value compared.
\<close>

definition sortKey :: "env \<Rightarrow> email \<Rightarrow> jsnum" where
  "sortKey e m = normalizeTimestamp (implDateParse e) (createTime m) UTC"

definition compareFn :: "env \<Rightarrow> email \<Rightarrow> email \<Rightarrow> jsnum" where
  "compareFn e a b = js_sub (sortKey e b) (sortKey e a)"

definition sortedList :: "env \<Rightarrow> email list \<Rightarrow> email list" where
  "sortedList e l = arraySort (engineOrder e l) (compareFn e) l"

definition maxRetries :: nat where
  "maxRetries = 5"

definition retryDelay :: nat where
  "retryDelay = 10000"

text \<open>The seven lines of the success report and the prompt that follows.\<close>

definition reportFound :: "verificationInfo \<Rightarrow> world \<Rightarrow> world" where
  "reportFound info w =
     prompt (consoleLog LogRule (consoleLog (LogSubject (v_subject info))
       (consoleLog (LogSender (v_from info)) (consoleLog (LogReceived (v_time info))
         (consoleLog (LogCode (v_code info)) (consoleLog LogRule
           (consoleLog LogFoundHeader w)))))))"

text \<open>
  One pass of the loop body after the fetch: \<open>Inr (Some info)\<close> when the pass reaches the
  \<^verbatim>\<open>return\<close> of the success branch, \<open>Inr None\<close> when it falls through to the retry,
  \<open>Inl\<close> when it throws.
\<close>

definition scanMessages ::
  "env \<Rightarrow> email list \<Rightarrow> world \<Rightarrow> (error + verificationInfo option) \<times> world" where
  "scanMessages e l w =
     (let sorted = sortedList e l;
          latestMailTime = (case sorted of [] \<Rightarrow> VUndefined | m # _ \<Rightarrow> createTime m);
          latestTs = normalizeTimestamp (implDateParse e) latestMailTime UTC
      in case Date_now e w of
           (now, w1) \<Rightarrow>
             let w2 = consoleLog (LogLatest latestMailTime latestTs now) w1
             in if latestTs = NaN then (Inr None, consoleLog LogUnparsable w2)
                else (case isWithinMinutes e latestMailTime (Fin 3) w2 of
                        (False, w3) \<Rightarrow> (Inr None, consoleLog LogNotRecent w3)
                      | (True, w3) \<Rightarrow>
                          (case findLatestVerificationCode sorted of
                             Inl err \<Rightarrow> (Inl err, w3)
                           | Inr None \<Rightarrow> (Inr None, consoleLog LogNoCode w3)
                           | Inr (Some info) \<Rightarrow>
                               (case isWithinMinutes e (v_time info) (Fin 3) w3 of
                                  (False, w4) \<Rightarrow>
                                    (Inr None,
                                     consoleLog
                                       (LogCodeStale (v_time info)
                                          (normalizeTimestamp (implDateParse e) (v_time info) UTC))
                                       w4)
                                | (True, w4) \<Rightarrow> (Inr (Some info), reportFound info w4)))))"

definition attemptBody ::
  "env \<Rightarrow> emailData \<Rightarrow> world \<Rightarrow> (error + verificationInfo option) \<times> world" where
  "attemptBody e emailData w =
     (case list emailData of
        None \<Rightarrow> (Inr None, consoleLog LogNoMail w)
      | Some l \<Rightarrow>
          if l = [] then (Inr None, consoleLog LogNoMail w) else scanMessages e l w)"

text \<open>
  How a session ends: the success branch (with what it reports) or the line after the loop.
  The function of the source returns \<^verbatim>\<open>undefined\<close> at both places.
\<close>

datatype outcome = Found verificationInfo | Exhausted

text \<open>
  \<^verbatim>\<open>for (let i = 0; i < maxRetries; i++) { ... }\<close> from the value \<open>i\<close> of the counter on,
  and the two statements after the loop. Nothing in the loop catches: a rejection of
  \<^verbatim>\<open>fetchEmailList\<close>, the TypeError of reading \<^verbatim>\<open>.list\<close> of an absent \<^verbatim>\<open>data\<close>
  and a TypeError thrown in the pass end the session.
\<close>

function pollFrom :: "env \<Rightarrow> jsstring \<Rightarrow> nat \<Rightarrow> nat \<Rightarrow> world \<Rightarrow> (error + outcome) \<times> world" where
  "pollFrom e token accountId i w =
     (if i < maxRetries then
        (case fetchEmailList e token accountId 10 (consoleLog (LogAttempt (i + 1) maxRetries) w) of
           (Inl err, w1) \<Rightarrow> (Inl err, w1)
         | (Inr None, w1) \<Rightarrow> (Inl TypeError, w1)
         | (Inr (Some emailData), w1) \<Rightarrow>
             (case attemptBody e emailData w1 of
                (Inl err, w2) \<Rightarrow> (Inl err, w2)
              | (Inr (Some info), w2) \<Rightarrow> (Inr (Found info), w2)
              | (Inr None, w2) \<Rightarrow>
                  pollFrom e token accountId (i + 1)
                    (if i < maxRetries - 1 then sleep retryDelay w2 else w2)))
      else (Inr Exhausted, prompt (consoleLog LogExhausted w)))"
  by pat_completeness auto
termination
  by (relation "measure (\<lambda>(e, token, accountId, i, w). maxRetries - i)") auto

text \<open>The loop of a session: the counter starts at 0.\<close>

definition pollLoop :: "env \<Rightarrow> jsstring \<Rightarrow> nat \<Rightarrow> world \<Rightarrow> (error + outcome) \<times> world" where
  "pollLoop e token accountId w = pollFrom e token accountId 0 w"

text \<open>The equation of \<open>pollFrom\<close> is unfolded by hand, one pass at a time.\<close>

declare pollFrom.simps [simp del]

text \<open>The milliseconds slept in a sequence of events.\<close>

fun sleepTotal :: "event list \<Rightarrow> nat" where
  "sleepTotal [] = 0"
| "sleepTotal (Sleep ms # evs) = ms + sleepTotal evs"
| "sleepTotal (ev # evs) = sleepTotal evs"

section \<open>Test environments\<close>

text \<open>
  An environment with a given timezone, clock and network, whose engine parses no date
  beyond the mandated format, leaves a list as it is where the order is its choice, and
  has a global \<^verbatim>\<open>fetch\<close>; a successful response carrying a list of messages; and the
  state before anything has happened.
\<close>

definition stubEnv :: "jsstring \<Rightarrow> (nat \<Rightarrow> real) \<Rightarrow> (nat \<Rightarrow> response option) \<Rightarrow> env" where
  "stubEnv tz clk net =
     \<lparr>timezone = tz, implDateParse = (\<lambda>s. NaN), clock = clk, fetchAvailable = True,
      network = net, engineOrder = (\<lambda>l. [])\<rparr>"

definition okResponse :: "email list \<Rightarrow> response" where
  "okResponse l =
     \<lparr>ok = True, status = 200,
      json = Some \<lparr>code = VNum (Fin 200), message = None, data = Some \<lparr>list = Some l\<rparr>\<rparr>\<rparr>"

definition world0 :: world where
  "world0 = \<lparr>ticks = 0, fetches = 0, trace = []\<rparr>"

text \<open>
  A response with a status that is not a success; a message with a subject and a
  timestamp; and a network whose first answer is one message without a code, ten minutes
  before the clock reading 1704074400000, and whose later answers are one message with the
  subject \<^verbatim>\<open>code is 482913\<close>, one minute before it, with what the loop then reports.
\<close>

definition failResponse :: "nat \<Rightarrow> response" where
  "failResponse st = \<lparr>ok = False, status = st, json = None\<rparr>"

definition mail :: "jsstring \<Rightarrow> jsval \<Rightarrow> email" where
  "mail s t =
     \<lparr>subject = VStr s, createTime = t, name = None, sendEmail = Some (ascii ''a@b.c'')\<rparr>"

definition twoStepNetwork :: "nat \<Rightarrow> response option" where
  "twoStepNetwork k =
     (if k = 0 then Some (okResponse [mail (ascii ''Welcome'') (VNum (Fin 1704073800))])
      else Some (okResponse [mail (ascii ''code is 482913'') (VNum (Fin 1704074340))]))"

definition foundInfo :: verificationInfo where
  "foundInfo = \<lparr>v_code = ascii ''482913'', v_time = VNum (Fin 1704074340),
                 v_subject = ascii ''code is 482913'', v_from = Some (ascii ''a@b.c'')\<rparr>"

text \<open>
  A clock that stands at 1704074400000; a network that answers every request with the
  status 500; and one that answers every request with one message, sent one minute before
  the clock reading, that has no subject.
\<close>

definition fixedClock :: "nat \<Rightarrow> real" where
  "fixedClock k = 1704074400000"

definition failingNetwork :: "nat \<Rightarrow> response option" where
  "failingNetwork k = Some (failResponse 500)"

definition noSubjectMail :: email where
  "noSubjectMail =
     \<lparr>subject = VUndefined, createTime = VNum (Fin 1704074340), name = None,
      sendEmail = Some (ascii ''a@b.c'')\<rparr>"

definition noSubjectNetwork :: "nat \<Rightarrow> response option" where
  "noSubjectNetwork k = Some (okResponse [noSubjectMail])"

text \<open>
  A successful response whose body is not JSON, and one whose body carries the provider
  code 500 and the message \<^verbatim>\<open>busy\<close>.
\<close>

definition badBodyResponse :: response where
  "badBodyResponse = \<lparr>ok = True, status = 200, json = None\<rparr>"

definition providerErrorResponse :: response where
  "providerErrorResponse =
     \<lparr>ok = True, status = 200,
      json = Some \<lparr>code = VNum (Fin 500), message = Some (ascii ''busy''), data = None\<rparr>\<rparr>"

text \<open>
  Two messages whose timestamps are strings without an offset, the older one first.
\<close>

definition naiveMails :: "email list" where
  "naiveMails =
     [mail (ascii ''first'') (VStr (ascii ''2024-01-01 10:00:00'')),
      mail (ascii ''second'') (VStr (ascii ''2024-01-01 11:00:00''))]"

section \<open>Properties of extractVerificationCode\<close>

text \<open>The definitions that evaluating the extractor on a given subject unfolds.\<close>

lemmas extract_eval = extractVerificationCode_def leadIns_def ascii_def icase_def isWhiteSpace_def
  isDigit_def matchDigits6_def

text \<open>
  Whatever the extractor returns stands in the subject behind a lead-in phrase and white
  space only: each layer of the matcher is inverted in turn.
\<close>

lemma isDigit_not_space: "isDigit c \<Longrightarrow> \<not> isWhiteSpace c"
  by (auto simp: isDigit_def isWhiteSpace_def)

lemma matchDigits6_SomeD:
  "matchDigits6 s = Some c \<Longrightarrow> s = c @ drop 6 s \<and> length c = 6 \<and> list_all isDigit c"
  by (auto simp: matchDigits6_def split: if_splits)

lemma matchSpacesCode_SomeD:
  "matchSpacesCode s = Some c \<Longrightarrow>
     \<exists>ws rest. s = ws @ c @ rest \<and> list_all isWhiteSpace ws \<and> length c = 6 \<and> list_all isDigit c"
proof (induction s)
  case Nil
  then show ?case by (simp add: matchDigits6_def)
next
  case (Cons a s)
  have direct: "matchDigits6 (a # s) = Some c \<Longrightarrow> ?case"
  proof -
    assume "matchDigits6 (a # s) = Some c"
    from matchDigits6_SomeD[OF this]
    have "a # s = [] @ c @ drop 6 (a # s) \<and> list_all isWhiteSpace [] \<and> length c = 6 \<and> list_all isDigit c"
      by simp
    then show ?case by blast
  qed
  show ?case
  proof (cases "isWhiteSpace a")
    case False
    with Cons.prems direct show ?thesis by simp
  next
    case True
    show ?thesis
    proof (cases "matchSpacesCode s")
      case None
      with True Cons.prems direct show ?thesis by simp
    next
      case (Some c')
      with True Cons.prems have "c' = c" by simp
      with Some Cons.IH obtain ws rest where
        "s = ws @ c @ rest" "list_all isWhiteSpace ws" "length c = 6" "list_all isDigit c"
        by blast
      with True have "a # s = (a # ws) @ c @ rest \<and> list_all isWhiteSpace (a # ws)
          \<and> length c = 6 \<and> list_all isDigit c" by simp
      then show ?thesis by blast
    qed
  qed
qed

lemma matchLiteral_SomeD:
  "matchLiteral p s = Some r \<Longrightarrow> \<exists>lead. s = lead @ r \<and> matchLiteral p lead = Some []"
proof (induction p s rule: matchLiteral.induct)
  case (1 s)
  then show ?case by simp
next
  case (2 p ps)
  then show ?case by simp
next
  case (3 p ps c cs)
  from "3.prems" have in_p: "c \<in> set (icase p)" and "matchLiteral ps cs = Some r"
    by (simp_all split: if_splits)
  with "3.IH" obtain lead where "cs = lead @ r" "matchLiteral ps lead = Some []" by blast
  with in_p have "c # cs = (c # lead) @ r \<and> matchLiteral (p # ps) (c # lead) = Some []"
    by simp
  then show ?case by blast
qed

lemma matchAlternatives_SomeD:
  "matchAlternatives ps s = Some c \<Longrightarrow>
     \<exists>p lead ws rest. p \<in> set ps \<and> matchLiteral p lead = Some [] \<and> s = lead @ ws @ c @ rest
        \<and> list_all isWhiteSpace ws \<and> length c = 6 \<and> list_all isDigit c"
proof (induction ps)
  case Nil
  then show ?case by simp
next
  case (Cons p ps)
  show ?case
  proof (cases "\<exists>r. matchLiteral p s = Some r \<and> matchSpacesCode r = Some c")
    case True
    then obtain r where r: "matchLiteral p s = Some r" "matchSpacesCode r = Some c" by blast
    from matchLiteral_SomeD[OF r(1)] obtain lead where
      l: "s = lead @ r" "matchLiteral p lead = Some []" by blast
    from matchSpacesCode_SomeD[OF r(2)] obtain ws rest where
      "r = ws @ c @ rest" "list_all isWhiteSpace ws" "length c = 6" "list_all isDigit c" by blast
    with l have "p \<in> set (p # ps) \<and> matchLiteral p lead = Some [] \<and> s = lead @ ws @ c @ rest
        \<and> list_all isWhiteSpace ws \<and> length c = 6 \<and> list_all isDigit c" by simp
    then show ?thesis by blast
  next
    case False
    with Cons.prems have "matchAlternatives ps s = Some c"
      by (auto split: option.splits)
    from Cons.IH[OF this] show ?thesis by (metis list.set_intros(2))
  qed
qed

lemma searchCode_SomeD:
  "searchCode s = Some c \<Longrightarrow>
     \<exists>pre p lead ws rest. p \<in> set leadIns \<and> matchLiteral p lead = Some []
        \<and> s = pre @ lead @ ws @ c @ rest
        \<and> list_all isWhiteSpace ws \<and> length c = 6 \<and> list_all isDigit c"
proof (induction s)
  case Nil
  from matchAlternatives_SomeD[of leadIns "[]" c] Nil show ?case
    by (metis append_Nil searchCode.simps(1))
next
  case (Cons a s)
  show ?case
  proof (cases "matchAlternatives leadIns (a # s)")
    case (Some c')
    with Cons.prems have "matchAlternatives leadIns (a # s) = Some c" by simp
    from matchAlternatives_SomeD[OF this] show ?thesis by (metis append_Nil)
  next
    case None
    with Cons.prems have "searchCode s = Some c" by simp
    from Cons.IH[OF this] obtain pre p lead ws rest where
      h: "p \<in> set leadIns" "matchLiteral p lead = Some []" "s = pre @ lead @ ws @ c @ rest"
         "list_all isWhiteSpace ws" "length c = 6" "list_all isDigit c" by blast
    then have "a # s = (a # pre) @ lead @ ws @ c @ rest" by simp
    with h show ?thesis by blast
  qed
qed

text \<open>
  C1, as stated: on the subject U+4F60 U+7684 U+9A8C U+8BC1 U+7801 U+4E3A followed by
  \<^verbatim>\<open> 123456\<close> the extractor yields \<^verbatim>\<open>123456\<close>. It does not: the subject holds
  U+7801 U+4E3A behind U+8BC1, and the Chinese lead-in of the pattern is
  U+4EE3 U+7801 U+4E3A.
\<close>

theorem extract_phrasing_counterexample:
  "extractVerificationCode ([0x4F60, 0x7684, 0x9A8C, 0x8BC1, 0x7801, 0x4E3A] @ ascii '' 123456'')
     \<noteq> Some (ascii ''123456'')"
  by (simp add: extract_eval)

text \<open>
  C1, amended: the subject of the statement above yields none; a subject with the lead-in
  of the pattern (the format named in the source's comment, U+4F60 U+7684, \<^verbatim>\<open> ChatGPT \<close>,
  U+4EE3 U+7801 U+4E3A, \<^verbatim>\<open> 123456\<close>) yields \<^verbatim>\<open>123456\<close>; the English and the Spanish
  subject yield \<^verbatim>\<open>654321\<close> and \<^verbatim>\<open>000000\<close>; \<^verbatim>\<open>order 123456 shipped\<close> yields none;
  and whenever a code is returned it is six digits that follow, after white space only, a
  phrase matching one of the three lead-ins, so a number without a lead-in is never matched.
\<close>

theorem extract_phrasing_amended:
  "extractVerificationCode ([0x4F60, 0x7684, 0x9A8C, 0x8BC1, 0x7801, 0x4E3A] @ ascii '' 123456'') = None
   \<and> extractVerificationCode
        ([0x4F60, 0x7684] @ ascii '' ChatGPT '' @ [0x4EE3, 0x7801, 0x4E3A] @ ascii '' 123456'')
       = Some (ascii ''123456'')
   \<and> extractVerificationCode (ascii ''Your code is 654321'') = Some (ascii ''654321'')
   \<and> extractVerificationCode (ascii ''Tu c'' @ [0xF3] @ ascii ''digo es 000000'')
       = Some (ascii ''000000'')
   \<and> extractVerificationCode (ascii ''order 123456 shipped'') = None
   \<and> (\<forall>s c. extractVerificationCode s = Some c \<longrightarrow>
         (\<exists>pre p lead ws rest. p \<in> set leadIns \<and> matchLiteral p lead = Some []
            \<and> s = pre @ lead @ ws @ c @ rest
            \<and> list_all isWhiteSpace ws \<and> length c = 6 \<and> list_all isDigit c))"
proof -
  have general: "\<forall>s c. extractVerificationCode s = Some c \<longrightarrow>
         (\<exists>pre p lead ws rest. p \<in> set leadIns \<and> matchLiteral p lead = Some []
            \<and> s = pre @ lead @ ws @ c @ rest
            \<and> list_all isWhiteSpace ws \<and> length c = 6 \<and> list_all isDigit c)"
    using searchCode_SomeD by (simp add: extractVerificationCode_def)
  have e1: "extractVerificationCode ([0x4F60, 0x7684, 0x9A8C, 0x8BC1, 0x7801, 0x4E3A] @ ascii '' 123456'') = None"
    by (simp add: extract_eval)
  have e2: "extractVerificationCode
        ([0x4F60, 0x7684] @ ascii '' ChatGPT '' @ [0x4EE3, 0x7801, 0x4E3A] @ ascii '' 123456'')
       = Some (ascii ''123456'')"
    by (simp add: extract_eval)
  have e3: "extractVerificationCode (ascii ''Your code is 654321'') = Some (ascii ''654321'')"
    by (simp add: extract_eval)
  have e4: "extractVerificationCode (ascii ''Tu c'' @ [0xF3] @ ascii ''digo es 000000'')
       = Some (ascii ''000000'')"
    by (simp add: extract_eval)
  have e5: "extractVerificationCode (ascii ''order 123456 shipped'') = None"
    by (simp add: extract_eval)
  from e1 e2 e3 e4 e5 general show ?thesis by blast
qed

theorem extract_phrasing_amended_witness:
  "extractVerificationCode (ascii ''Your code is 654321'') = Some (ascii ''654321'')
   \<and> (\<exists>pre p lead ws rest. p \<in> set leadIns \<and> matchLiteral p lead = Some []
          \<and> ascii ''Your code is 654321'' = pre @ lead @ ws @ ascii ''654321'' @ rest
          \<and> list_all isWhiteSpace ws \<and> length (ascii ''654321'') = 6
          \<and> list_all isDigit (ascii ''654321''))"
  using extract_phrasing_amended by blast

subsection \<open>Runs of more than six digits\<close>

lemma matchLiteral_append:
  "matchLiteral p lead = Some [] \<Longrightarrow> matchLiteral p (lead @ s) = Some s"
  by (induction p lead rule: matchLiteral.induct) (auto split: if_splits)

lemma matchLiteral_ConsD:
  "matchLiteral (p # ps) s = Some r \<Longrightarrow>
     \<exists>c cs. s = c # cs \<and> c \<in> set (icase p) \<and> matchLiteral ps cs = Some r"
  by (cases s) (auto split: if_splits)

lemma matchDigits6_run:
  "list_all isDigit ds \<Longrightarrow> 6 \<le> length ds \<Longrightarrow> matchDigits6 (ds @ rest) = Some (take 6 ds)"
  by (simp add: matchDigits6_def list_all_iff) (meson in_set_takeD)

lemma matchSpacesCode_run:
  assumes "list_all isWhiteSpace ws" and "list_all isDigit ds" and "6 \<le> length ds"
  shows "matchSpacesCode (ws @ ds @ rest) = Some (take 6 ds)"
  using assms(1)
proof (induction ws)
  case Nil
  from assms(3) obtain d ds' where ds: "ds = d # ds'" by (cases ds) auto
  with assms(2) have "\<not> isWhiteSpace d" by (simp add: isDigit_not_space)
  with ds matchDigits6_run[OF assms(2,3), of rest] show ?case by simp
next
  case (Cons a ws)
  then show ?case by simp
qed

text \<open>
  At a position where one lead-in matches, no earlier alternative does: the first differs
  from the other two in its first unit, the second from the third in its second.
\<close>

lemma matchAlternatives_leadIn:
  assumes p: "p \<in> set leadIns" and lead: "matchLiteral p lead = Some []"
    and r: "matchSpacesCode r = Some c"
  shows "matchAlternatives leadIns (lead @ r) = Some c"
proof -
  note here = matchLiteral_append[OF lead, of r]
  from p consider
    (zh) "p = [0x4EE3, 0x7801, 0x4E3A]"
    | (en) "p = ascii ''code is''"
    | (es) "p = ascii ''c'' @ [0xF3] @ ascii ''digo es''"
    by (auto simp: leadIns_def)
  then show ?thesis
  proof cases
    case zh
    with here r show ?thesis by (simp add: leadIns_def)
  next
    case en
    with lead have "matchLiteral (0x63 # ascii ''ode is'') lead = Some []"
      by (simp add: ascii_def)
    from matchLiteral_ConsD[OF this] obtain c0 cs where
      l: "lead = c0 # cs" "c0 \<in> set (icase 0x63)" by blast
    then have "c0 \<notin> set (icase 0x4EE3)" by (auto simp: icase_def)
    with l have "matchLiteral [0x4EE3, 0x7801, 0x4E3A] (lead @ r) = None" by simp
    with here r en show ?thesis by (simp add: leadIns_def)
  next
    case es
    with lead have "matchLiteral (0x63 # 0xF3 # ascii ''digo es'') lead = Some []"
      by (simp add: ascii_def)
    from matchLiteral_ConsD[OF this] obtain c0 cs where
      l: "lead = c0 # cs" "c0 \<in> set (icase 0x63)"
      and cs: "matchLiteral (0xF3 # ascii ''digo es'') cs = Some []" by blast
    from matchLiteral_ConsD[OF cs] obtain c1 cs' where l1: "cs = c1 # cs'" "c1 \<in> set (icase 0xF3)"
      by blast
    from l have "c0 \<notin> set (icase 0x4EE3)" by (auto simp: icase_def)
    with l have zh: "matchLiteral [0x4EE3, 0x7801, 0x4E3A] (lead @ r) = None" by simp
    from l1 have "c1 \<notin> set (icase 0x6F)" by (auto simp: icase_def)
    with l l1 have en: "matchLiteral (ascii ''code is'') (lead @ r) = None"
      by (simp add: ascii_def)
    from zh en here r es show ?thesis by (simp add: leadIns_def)
  qed
qed

lemma searchCode_here:
  "matchAlternatives leadIns s = Some c \<Longrightarrow> searchCode s = Some c"
  by (cases s) simp_all

lemma searchCode_later:
  "searchCode s \<noteq> None \<Longrightarrow> searchCode (pre @ s) \<noteq> None"
  by (induction pre) (auto split: option.splits)

lemma searchCode_skip:
  "\<forall>k<length pre. matchAlternatives leadIns (drop k (pre @ s)) = None \<Longrightarrow>
     searchCode (pre @ s) = searchCode s"
proof (induction pre)
  case Nil
  then show ?case by simp
next
  case (Cons a pre)
  from Cons.prems have "matchAlternatives leadIns (drop 0 ((a # pre) @ s)) = None"
    by (metis length_greater_0_conv list.distinct(1))
  then have first: "matchAlternatives leadIns (a # pre @ s) = None" by simp
  have "\<forall>k<length pre. matchAlternatives leadIns (drop k (pre @ s)) = None"
  proof (intro allI impI)
    fix k assume "k < length pre"
    then have "Suc k < length (a # pre)" by simp
    with Cons.prems have "matchAlternatives leadIns (drop (Suc k) ((a # pre) @ s)) = None"
      by blast
    then show "matchAlternatives leadIns (drop k (pre @ s)) = None" by simp
  qed
  with Cons.IH first show ?case by simp
qed

text \<open>
  C10, as stated: whenever somewhere in the subject a lead-in is followed by optional white
  space and seven or more digits, the extractor returns the first six digits of that run.
  In \<^verbatim>\<open>code is 111111 code is 1234567\<close> the second lead-in is followed by such a run,
  and the extractor returns \<^verbatim>\<open>111111\<close>, from the match that starts further left.
\<close>

theorem extract_long_run_counterexample:
  "ascii ''code is 111111 code is 1234567''
     = ascii ''code is 111111 '' @ ascii ''code is'' @ [0x20] @ ascii ''1234567''
   \<and> extractVerificationCode (ascii ''code is 111111 code is 1234567'') = Some (ascii ''111111'')
   \<and> extractVerificationCode (ascii ''code is 111111 code is 1234567'')
       \<noteq> Some (take 6 (ascii ''1234567''))"
  by (simp add: extract_eval)

text \<open>
  C10, amended: whenever somewhere in the subject a phrase matching a lead-in (in any
  case) is followed by optional white space and seven or more digits, the extractor does
  not return none; it returns the first six digits of that run when the pattern matches
  at no position before that phrase, in particular when the subject begins with it. So
  an over-long code is truncated, not rejected.
\<close>

theorem extract_long_run:
  assumes "p \<in> set leadIns" and "matchLiteral p lead = Some []"
    and "list_all isWhiteSpace ws" and "list_all isDigit ds" and "7 \<le> length ds"
  shows "extractVerificationCode (pre @ lead @ ws @ ds @ rest) \<noteq> None
       \<and> ((\<forall>k<length pre.
              matchAlternatives leadIns (drop k (pre @ lead @ ws @ ds @ rest)) = None) \<longrightarrow>
            extractVerificationCode (pre @ lead @ ws @ ds @ rest) = Some (take 6 ds))
       \<and> extractVerificationCode (lead @ ws @ ds @ rest) = Some (take 6 ds)"
proof -
  from assms(5) have six: "6 \<le> length ds" by simp
  have here: "matchAlternatives leadIns (lead @ ws @ ds @ rest) = Some (take 6 ds)"
    using matchAlternatives_leadIn[OF assms(1,2) matchSpacesCode_run[OF assms(3,4) six]] .
  then have start: "searchCode (lead @ ws @ ds @ rest) = Some (take 6 ds)"
    by (rule searchCode_here)
  then have some: "searchCode (pre @ lead @ ws @ ds @ rest) \<noteq> None"
    using searchCode_later[of "lead @ ws @ ds @ rest" pre] by simp
  have first: "searchCode (pre @ lead @ ws @ ds @ rest) = Some (take 6 ds)"
    if "\<forall>k<length pre. matchAlternatives leadIns (drop k (pre @ lead @ ws @ ds @ rest)) = None"
    using searchCode_skip[OF that] start by simp
  from start some first show ?thesis by (simp add: extractVerificationCode_def)
qed

theorem extract_long_run_witness:
  "ascii ''code is'' \<in> set leadIns
   \<and> matchLiteral (ascii ''code is'') (ascii ''Code IS'') = Some []
   \<and> list_all isWhiteSpace [0x20] \<and> list_all isDigit (ascii ''1234567'')
   \<and> 7 \<le> length (ascii ''1234567'')
   \<and> extractVerificationCode (ascii ''code is 1234567'') = Some (ascii ''123456'')
   \<and> extractVerificationCode (ascii ''Your Code IS 1234567 today'') = Some (ascii ''123456'')"
proof -
  have h: "ascii ''code is'' \<in> set leadIns"
    "matchLiteral (ascii ''code is'') (ascii ''Code IS'') = Some []"
    "matchLiteral (ascii ''code is'') (ascii ''code is'') = Some []"
    "list_all isWhiteSpace [0x20]" "list_all isDigit (ascii ''1234567'')"
    "7 \<le> length (ascii ''1234567'')"
    by (simp_all add: extract_eval)
  have none: "\<forall>k<length (ascii ''Your '').
      matchAlternatives leadIns
        (drop k (ascii ''Your '' @ ascii ''Code IS'' @ [0x20] @ ascii ''1234567'' @ ascii '' today''))
      = None"
  proof (intro allI impI)
    fix k :: nat
    assume "k < length (ascii ''Your '')"
    then consider "k = 0" | "k = 1" | "k = 2" | "k = 3" | "k = 4"
      by (simp add: ascii_def) arith
    then show "matchAlternatives leadIns
        (drop k (ascii ''Your '' @ ascii ''Code IS'' @ [0x20] @ ascii ''1234567'' @ ascii '' today''))
      = None"
      by cases (simp_all add: extract_eval)
  qed
  from extract_long_run[OF h(1,3,4,5,6), of "[]" "[]"]
  have a: "extractVerificationCode (ascii ''code is 1234567'') = Some (ascii ''123456'')"
    by (simp add: ascii_def)
  from extract_long_run[OF h(1,2,4,5,6), of "ascii ''Your ''" "ascii '' today''"] none
  have b: "extractVerificationCode (ascii ''Your Code IS 1234567 today'') = Some (ascii ''123456'')"
    by (simp add: ascii_def)
  from h a b show ?thesis by simp
qed

section \<open>Properties of normalizeTimestamp\<close>

text \<open>The definitions that evaluating a conversion, a date or a timestamp unfolds.\<close>

lemmas number_eval = StringToNumber_def trim_def nonDecimalLiteral_def strUnsignedDecimalLiteral_def
  unsignedDecimal_def exponentPart_def scale10_def radixValue_def hexVal_def isHexDigit_def
  isDigit_def isWhiteSpace_def ascii_def

lemmas date_eval = Date_parse_def isoDateTime_def isoBody_def isoOffset_def takeDigits_def expect_def
  timeValue_def dayFromYear_def daysBeforeMonth_def daysInMonth_def inLeapYear_def

lemmas normalize_eval = normalizeTimestamp_def execTz_def offsetAt_def groupNumber_def pad2_def
  stringOrEmpty_def UTC_def Let_def

lemma js_lt_or_le: "v \<noteq> NaN \<Longrightarrow> js_lt v (Fin c) \<noteq> js_le (Fin c) v"
  by (cases v) auto

text \<open>
  C3: for every input whose \<^verbatim>\<open>Number\<close> is some \<open>v\<close> other than NaN, the result is
  \<open>v * 1000\<close>, the product of the language, when \<open>v < 1e12\<close>, and \<open>v\<close> itself when
  \<open>v >= 1e12\<close> (one of the two holds), whatever the timezone argument and the engine's
  date parsing.
\<close>

theorem normalizeTimestamp_numeric:
  assumes "Number time = v" and "v \<noteq> NaN"
  shows "(js_lt v (Fin 1000000000000) \<longrightarrow>
            normalizeTimestamp impl time tz = js_mul v (Fin 1000))
       \<and> (js_le (Fin 1000000000000) v \<longrightarrow> normalizeTimestamp impl time tz = v)
       \<and> (js_lt v (Fin 1000000000000) \<or> js_le (Fin 1000000000000) v)"
proof -
  have step: "normalizeTimestamp impl time tz =
      (if js_lt v (Fin 1000000000000) then js_mul v (Fin 1000) else v)"
    using assms by (simp add: normalizeTimestamp_def)
  from js_lt_or_le[OF assms(2)] have excl: "js_lt v (Fin 1000000000000) \<noteq> js_le (Fin 1000000000000) v" .
  from step excl show ?thesis by auto
qed

theorem normalizeTimestamp_numeric_witness:
  "Number (VStr (ascii ''1704074400'')) = Fin 1704074400
   \<and> Number (VNum (Fin 1704074400000)) = Fin 1704074400000
   \<and> normalizeTimestamp (\<lambda>s. NaN) (VStr (ascii ''1704074400'')) (ascii ''UTC+08:00'')
       = Fin 1704074400000
   \<and> normalizeTimestamp (\<lambda>s. NaN) (VNum (Fin 1704074400000)) (ascii ''UTC+08:00'')
       = Fin 1704074400000"
proof -
  have n1: "Number (VStr (ascii ''1704074400'')) = Fin 1704074400"
    by (simp add: number_eval)
  have n2: "Number (VNum (Fin 1704074400000)) = Fin 1704074400000"
    by simp
  from normalizeTimestamp_numeric[OF n1, of "\<lambda>s. NaN" "ascii ''UTC+08:00''"]
       normalizeTimestamp_numeric[OF n2, of "\<lambda>s. NaN" "ascii ''UTC+08:00''"] n1 n2
  show ?thesis by simp
qed

text \<open>
  C4: for the timezone \<^verbatim>\<open>UTC+08:00\<close> and the string \<^verbatim>\<open>2024-01-01 10:00:00\<close> the result
  is 1704074400000, the time value of 2024-01-01T10:00:00+08:00: the first space becomes
  \<^verbatim>\<open>T\<close>, \<^verbatim>\<open>+08:00\<close> is appended, and the result is parsed as a date-time with offset
  (on any engine: the string is in the mandated format).
\<close>

theorem normalizeTimestamp_naive_example:
  "normalizeTimestamp impl (VStr (ascii ''2024-01-01 10:00:00'')) (ascii ''UTC+08:00'')
     = Fin 1704074400000
   \<and> replaceSpace (trim (ascii ''2024-01-01 10:00:00'')) @ ascii ''+08:00''
       = ascii ''2024-01-01T10:00:00+08:00''
   \<and> normalizeTimestamp impl (VStr (ascii ''2024-01-01 10:00:00'')) (ascii ''UTC+08:00'')
       = Date_parse impl (ascii ''2024-01-01T10:00:00+08:00'')
   \<and> isoDateTime (ascii ''2024-01-01T10:00:00+08:00'')
       = Some (timeValue 2024 1 1 10 0 0 0 480)"
proof -
  have a: "normalizeTimestamp impl (VStr (ascii ''2024-01-01 10:00:00'')) (ascii ''UTC+08:00'')
     = Fin 1704074400000"
    by (simp add: normalize_eval date_eval number_eval)
  have b: "replaceSpace (trim (ascii ''2024-01-01 10:00:00'')) @ ascii ''+08:00''
       = ascii ''2024-01-01T10:00:00+08:00''"
    by (simp add: number_eval)
  have c: "Date_parse impl (ascii ''2024-01-01T10:00:00+08:00'') = Fin 1704074400000"
    by (simp add: date_eval number_eval)
  have d: "isoDateTime (ascii ''2024-01-01T10:00:00+08:00'')
       = Some (timeValue 2024 1 1 10 0 0 0 480)"
    by (simp add: date_eval number_eval)
  from a b c d show ?thesis by simp
qed

subsection \<open>The timezone pattern\<close>

lemma two_digits_value:
  "isDigit a \<Longrightarrow> isDigit b \<Longrightarrow> radixValue 10 [a, b] = 10 * (a - 48) + (b - 48)"
  by (simp add: radixValue_def hexVal_def)

lemma two_digits_bound: "isDigit a \<Longrightarrow> isDigit b \<Longrightarrow> radixValue 10 [a, b] \<le> 99"
  unfolding radixValue_def hexVal_def isDigit_def by simp arith

lemma length_ge2E: "2 \<le> length r \<Longrightarrow> \<exists>a b r'. r = a # b # r'"
  by (cases r; simp; cases "tl r"; auto)

lemma execTz_groups:
  assumes "execTz tz = Some (g1, g2, g3)"
  shows "(g2 = None \<or> (\<exists>a b. g2 = Some [a, b] \<and> isDigit a \<and> isDigit b))
       \<and> (g3 = None \<or> (\<exists>c d. g3 = Some [c, d] \<and> isDigit c \<and> isDigit d))"
proof (cases "drop 3 tz")
  case Nil
  with assms show ?thesis by (auto simp: execTz_def split: if_splits)
next
  case (Cons sg r)
  with assms have r2: "2 \<le> length r" and dg: "list_all isDigit (take 2 r)"
    by (auto simp: execTz_def split: if_splits)
  from length_ge2E[OF r2] obtain a b r' where r: "r = a # b # r'" by blast
  with dg have ab: "isDigit a" "isDigit b" by simp_all
  show ?thesis
  proof (cases "r' = []")
    case True
    with assms Cons r ab show ?thesis
      by (auto simp: execTz_def Let_def split: if_splits)
  next
    case False
    define r3 where "r3 = (case r' of [] \<Rightarrow> [] | c # r'' \<Rightarrow> if c = 0x3A then r'' else r')"
    from assms Cons r False have g: "g2 = Some [a, b]" "g3 = Some r3"
       and l3: "length r3 = 2" "list_all isDigit r3"
      by (auto simp: execTz_def Let_def r3_def split: if_splits)
    from l3(1) obtain c d where "r3 = [c, d]"
      by (metis length_ge2E length_0_conv length_Cons add_left_cancel one_add_one order_refl
            plus_1_eq_Suc Suc_inject numeral_2_eq_2)
    with g l3 ab show ?thesis by simp
  qed
qed

text \<open>
  C9, as stated: every timezone string the pattern accepts has hours in [0,23] and
  minutes in [0,59], and a string with a field outside is rejected. The pattern accepts
  \<^verbatim>\<open>UTC+99:99\<close>, with hours 99 and minutes 99.
\<close>

theorem tz_range_counterexample:
  "execTz (ascii ''UTC+99:99'') = Some (Some [0x2B], Some (ascii ''99''), Some (ascii ''99''))
   \<and> groupNumber (Some (ascii ''99'')) = 99
   \<and> \<not> groupNumber (Some (ascii ''99'')) \<le> 23
   \<and> \<not> groupNumber (Some (ascii ''99'')) \<le> 59"
  by (simp add: normalize_eval number_eval)

text \<open>
  C9, amended: every timezone string the pattern accepts has hours and minutes in [0,99]
  (0 for a field that is absent), and no string is rejected for the value of a field: a
  sign followed by any two digits, a colon and any two digits is accepted, with the value
  of the digits as hours and minutes.
\<close>

theorem tz_range_amended:
  "(\<forall>tz g1 g2 g3. execTz tz = Some (g1, g2, g3) \<longrightarrow>
       groupNumber g2 \<le> 99 \<and> groupNumber g3 \<le> 99)
   \<and> (\<forall>sg a b c d.
         (sg = 0x2B \<or> sg = 0x2D) \<and> isDigit a \<and> isDigit b \<and> isDigit c \<and> isDigit d \<longrightarrow>
           execTz (ascii ''UTC'' @ [sg, a, b, 0x3A, c, d]) = Some (Some [sg], Some [a, b], Some [c, d])
           \<and> groupNumber (Some [a, b]) = 10 * (a - 48) + (b - 48)
           \<and> groupNumber (Some [c, d]) = 10 * (c - 48) + (d - 48))"
proof -
  have bound: "groupNumber g2 \<le> 99 \<and> groupNumber g3 \<le> 99"
    if "execTz tz = Some (g1, g2, g3)" for tz g1 g2 g3
    using execTz_groups[OF that] two_digits_bound
    by (auto simp: groupNumber_def)
  have accept: "execTz (ascii ''UTC'' @ [sg, a, b, 0x3A, c, d]) = Some (Some [sg], Some [a, b], Some [c, d])
           \<and> groupNumber (Some [a, b]) = 10 * (a - 48) + (b - 48)
           \<and> groupNumber (Some [c, d]) = 10 * (c - 48) + (d - 48)"
    if "sg = 0x2B \<or> sg = 0x2D" "isDigit a" "isDigit b" "isDigit c" "isDigit d" for sg a b c d
    using that two_digits_value
    by (auto simp: execTz_def ascii_def Let_def groupNumber_def isDigit_def)
  from bound accept show ?thesis by blast
qed

theorem tz_range_amended_witness:
  "execTz (ascii ''UTC-05:30'') = Some (Some [0x2D], Some (ascii ''05''), Some (ascii ''30''))
   \<and> groupNumber (Some (ascii ''05'')) = 5 \<and> groupNumber (Some (ascii ''30'')) = 30
   \<and> groupNumber (Some (ascii ''05'')) \<le> 99 \<and> groupNumber (Some (ascii ''30'')) \<le> 99"
proof -
  have ex: "execTz (ascii ''UTC-05:30'') = Some (Some [0x2D], Some (ascii ''05''), Some (ascii ''30''))"
    by (simp add: normalize_eval number_eval)
  have "isDigit 0x30 \<and> isDigit 0x35 \<and> isDigit 0x33" by (simp add: isDigit_def)
  with tz_range_amended ex show ?thesis
    by (simp add: groupNumber_def radixValue_def hexVal_def isDigit_def ascii_def)
qed

section \<open>Properties of isWithinMinutes\<close>

lemma js_mul_minutes: "js_mul (js_mul m (Fin 60)) (Fin 1000) = js_mul m (Fin 60000)"
  by (cases m) (simp_all add: infTimes_def)

lemma isWithinMinutes_fst:
  "fst (isWithinMinutes e t m w) =
     (normalizeTimestamp (implDateParse e) t (timezone e) \<noteq> NaN
      \<and> js_le (js_sub (Fin (clock e (ticks w))) (normalizeTimestamp (implDateParse e) t (timezone e)))
               (js_mul m (Fin 60000)))"
  by (simp add: isWithinMinutes_def Date_now_def Let_def js_mul_minutes)

text \<open>
  C6: for every timestamp \<open>t\<close> and window \<open>m\<close>, the answer is false when the timestamp
  normalized with the configured timezone is NaN, and otherwise it is the comparison
  \<open>now - normalize(t) <= m * 60000\<close> of the language, which for finite values is the
  comparison of reals; a timestamp in the future (a negative difference) is recent, for a
  window that is not negative. \<open>now\<close> is the reading of the clock in the state at hand.
\<close>

theorem isWithinMinutes_window:
  "(normalizeTimestamp (implDateParse e) t (timezone e) = NaN \<longrightarrow>
      fst (isWithinMinutes e t m w) = False)
   \<and> (normalizeTimestamp (implDateParse e) t (timezone e) \<noteq> NaN \<longrightarrow>
        fst (isWithinMinutes e t m w)
          = js_le (js_sub (Fin (clock e (ticks w)))
                          (normalizeTimestamp (implDateParse e) t (timezone e)))
                  (js_mul m (Fin 60000)))
   \<and> (\<forall>x mm. normalizeTimestamp (implDateParse e) t (timezone e) = Fin x \<and> m = Fin mm \<longrightarrow>
         fst (isWithinMinutes e t m w) = (clock e (ticks w) - x \<le> mm * 60000))
   \<and> (\<forall>x mm. normalizeTimestamp (implDateParse e) t (timezone e) = Fin x \<and> m = Fin mm
               \<and> 0 \<le> mm \<and> clock e (ticks w) < x \<longrightarrow>
         fst (isWithinMinutes e t m w) = True)"
proof -
  have fin: "fst (isWithinMinutes e t m w) = (clock e (ticks w) - x \<le> mm * 60000)"
    if "normalizeTimestamp (implDateParse e) t (timezone e) = Fin x" "m = Fin mm" for x mm
    using that by (simp add: isWithinMinutes_fst)
  have future: "fst (isWithinMinutes e t m w) = True"
    if h: "normalizeTimestamp (implDateParse e) t (timezone e) = Fin x" "m = Fin mm"
       and pos: "0 \<le> mm" and lt: "clock e (ticks w) < x" for x mm
  proof -
    from pos have "0 \<le> mm * 60000" by simp
    with lt have "clock e (ticks w) - x \<le> mm * 60000" by linarith
    with fin[OF h] show ?thesis by simp
  qed
  from fin future show ?thesis by (simp add: isWithinMinutes_fst)
qed

theorem isWithinMinutes_window_witness:
  "normalizeTimestamp (\<lambda>s. NaN) (VStr (ascii ''soon'')) (ascii ''UTC+08:00'') = NaN
   \<and> fst (isWithinMinutes (stubEnv (ascii ''UTC+08:00'') (\<lambda>k. 1704074500000) (\<lambda>k. None))
            (VStr (ascii ''soon'')) (Fin 3) world0) = False
   \<and> normalizeTimestamp (\<lambda>s. NaN) (VStr (ascii ''2024-01-01 10:00:00'')) (ascii ''UTC+08:00'')
       = Fin 1704074400000
   \<and> fst (isWithinMinutes (stubEnv (ascii ''UTC+08:00'') (\<lambda>k. 1704074500000) (\<lambda>k. None))
            (VStr (ascii ''2024-01-01 10:00:00'')) (Fin 3) world0) = True
   \<and> fst (isWithinMinutes (stubEnv (ascii ''UTC+08:00'') (\<lambda>k. 1704074600000) (\<lambda>k. None))
            (VStr (ascii ''2024-01-01 10:00:00'')) (Fin 3) world0) = False
   \<and> fst (isWithinMinutes (stubEnv (ascii ''UTC+08:00'') (\<lambda>k. 1704074300000) (\<lambda>k. None))
            (VStr (ascii ''2024-01-01 10:00:00'')) (Fin 3) world0) = True"
proof -
  have n1: "normalizeTimestamp (\<lambda>s. NaN) (VStr (ascii ''soon'')) (ascii ''UTC+08:00'') = NaN"
    by (simp add: normalize_eval date_eval number_eval)
  have n2: "normalizeTimestamp (\<lambda>s. NaN) (VStr (ascii ''2024-01-01 10:00:00'')) (ascii ''UTC+08:00'')
       = Fin 1704074400000"
    by (simp add: normalize_eval date_eval number_eval)
  note w1 = isWithinMinutes_window[of "stubEnv (ascii ''UTC+08:00'') (\<lambda>k. 1704074500000) (\<lambda>k. None)"
      "VStr (ascii ''soon'')" "Fin 3" world0]
  note w2 = isWithinMinutes_window[of "stubEnv (ascii ''UTC+08:00'') (\<lambda>k. 1704074500000) (\<lambda>k. None)"
      "VStr (ascii ''2024-01-01 10:00:00'')" "Fin 3" world0]
  note w3 = isWithinMinutes_window[of "stubEnv (ascii ''UTC+08:00'') (\<lambda>k. 1704074600000) (\<lambda>k. None)"
      "VStr (ascii ''2024-01-01 10:00:00'')" "Fin 3" world0]
  note w4 = isWithinMinutes_window[of "stubEnv (ascii ''UTC+08:00'') (\<lambda>k. 1704074300000) (\<lambda>k. None)"
      "VStr (ascii ''2024-01-01 10:00:00'')" "Fin 3" world0]
  from w1 n1 have r1: "fst (isWithinMinutes (stubEnv (ascii ''UTC+08:00'') (\<lambda>k. 1704074500000) (\<lambda>k. None))
            (VStr (ascii ''soon'')) (Fin 3) world0) = False"
    by (simp add: stubEnv_def)
  from w2 n2 have r2: "fst (isWithinMinutes (stubEnv (ascii ''UTC+08:00'') (\<lambda>k. 1704074500000) (\<lambda>k. None))
            (VStr (ascii ''2024-01-01 10:00:00'')) (Fin 3) world0) = True"
    by (simp add: stubEnv_def world0_def)
  from w3 n2 have r3: "fst (isWithinMinutes (stubEnv (ascii ''UTC+08:00'') (\<lambda>k. 1704074600000) (\<lambda>k. None))
            (VStr (ascii ''2024-01-01 10:00:00'')) (Fin 3) world0) = False"
    by (simp add: stubEnv_def world0_def)
  from w4 n2 have r4: "fst (isWithinMinutes (stubEnv (ascii ''UTC+08:00'') (\<lambda>k. 1704074300000) (\<lambda>k. None))
            (VStr (ascii ''2024-01-01 10:00:00'')) (Fin 3) world0) = True"
    by (simp add: stubEnv_def world0_def)
  from n1 n2 r1 r2 r3 r4 show ?thesis by simp
qed

section \<open>Properties of the poll loop\<close>

lemma fetchEmailList_world:
  "fetchEmailList e token accountId n w = (r, w1) \<Longrightarrow>
     (w1 = w \<and> r = Inl FetchUnavailable \<and> \<not> fetchAvailable e)
     \<or> (w1 = w\<lparr>fetches := Suc (fetches w), trace := trace w @ [HttpGet accountId n token]\<rparr>
         \<and> fetchAvailable e)"
  by (auto simp: fetchEmailList_def Let_def split: if_splits option.splits)

lemma fetchEmailList_InrD:
  "fetchEmailList e token accountId n w = (Inr d, w1) \<Longrightarrow>
     \<exists>resp p. network e (fetches w) = Some resp \<and> ok resp \<and> json resp = Some p
        \<and> code p = VNum (Fin 200) \<and> data p = d
        \<and> w1 = w\<lparr>fetches := Suc (fetches w), trace := trace w @ [HttpGet accountId n token]\<rparr>"
  by (auto simp: fetchEmailList_def Let_def split: if_splits option.splits)

text \<open>One pass of the loop, by what the fetch answers and how the pass ends.\<close>

lemma pollFrom_fetch_fails:
  assumes "i < maxRetries"
    and "fetchEmailList e token accountId 10 (consoleLog (LogAttempt (i + 1) maxRetries) w)
           = (Inl err, w1)"
  shows "pollFrom e token accountId i w = (Inl err, w1)"
  using assms by (subst pollFrom.simps) simp

lemma pollFrom_no_data:
  assumes "i < maxRetries"
    and "fetchEmailList e token accountId 10 (consoleLog (LogAttempt (i + 1) maxRetries) w)
           = (Inr None, w1)"
  shows "pollFrom e token accountId i w = (Inl TypeError, w1)"
  using assms by (subst pollFrom.simps) simp

lemma pollFrom_pass_fails:
  assumes "i < maxRetries"
    and "fetchEmailList e token accountId 10 (consoleLog (LogAttempt (i + 1) maxRetries) w)
           = (Inr (Some d), w1)"
    and "attemptBody e d w1 = (Inl err, w2)"
  shows "pollFrom e token accountId i w = (Inl err, w2)"
  using assms by (subst pollFrom.simps) simp

lemma pollFrom_found:
  assumes "i < maxRetries"
    and "fetchEmailList e token accountId 10 (consoleLog (LogAttempt (i + 1) maxRetries) w)
           = (Inr (Some d), w1)"
    and "attemptBody e d w1 = (Inr (Some info), w2)"
  shows "pollFrom e token accountId i w = (Inr (Found info), w2)"
  using assms by (subst pollFrom.simps) simp

lemma pollFrom_retry:
  assumes "i < maxRetries"
    and "fetchEmailList e token accountId 10 (consoleLog (LogAttempt (i + 1) maxRetries) w)
           = (Inr (Some d), w1)"
    and "attemptBody e d w1 = (Inr None, w2)"
  shows "pollFrom e token accountId i w
           = pollFrom e token accountId (i + 1)
               (if i < maxRetries - 1 then sleep retryDelay w2 else w2)"
  using assms by (subst pollFrom.simps) simp

lemma pollFrom_exhausted:
  "\<not> i < maxRetries \<Longrightarrow>
     pollFrom e token accountId i w = (Inr Exhausted, prompt (consoleLog LogExhausted w))"
  by (subst pollFrom.simps) simp

subsection \<open>What a pass leaves untouched, and the bounds on a session\<close>

lemma sleepTotal_append: "sleepTotal (xs @ ys) = sleepTotal xs + sleepTotal ys"
  by (induction xs rule: sleepTotal.induct) simp_all

lemma consoleLog_frame [simp]:
  "fetches (consoleLog l w) = fetches w"
  "ticks (consoleLog l w) = ticks w"
  "sleepTotal (trace (consoleLog l w)) = sleepTotal (trace w)"
  by (simp_all add: consoleLog_def sleepTotal_append)

lemma isWithinMinutes_frame:
  "isWithinMinutes e t m w = (b, w') \<Longrightarrow> fetches w' = fetches w \<and> trace w' = trace w"
  by (auto simp: isWithinMinutes_def Date_now_def Let_def split: if_splits)

lemma reportFound_frame [simp]:
  "fetches (reportFound info w) = fetches w"
  "sleepTotal (trace (reportFound info w)) = sleepTotal (trace w)"
  by (simp_all add: reportFound_def prompt_def sleepTotal_append)

lemma scanMessages_frame:
  assumes "scanMessages e l w = (x, w')"
  shows "fetches w' = fetches w \<and> sleepTotal (trace w') = sleepTotal (trace w)"
proof -
  let ?sorted = "sortedList e l"
  let ?t = "case ?sorted of [] \<Rightarrow> VUndefined | m # _ \<Rightarrow> createTime m"
  let ?w2 = "consoleLog (LogLatest ?t (normalizeTimestamp (implDateParse e) ?t UTC)
      (Fin (clock e (ticks w)))) (w\<lparr>ticks := Suc (ticks w)\<rparr>)"
  have w2: "fetches ?w2 = fetches w" "sleepTotal (trace ?w2) = sleepTotal (trace w)"
    by simp_all
  obtain b3 w3 where i3: "isWithinMinutes e ?t (Fin 3) ?w2 = (b3, w3)"
    by (cases "isWithinMinutes e ?t (Fin 3) ?w2")
  from isWithinMinutes_frame[OF i3] w2
  have w3: "fetches w3 = fetches w" "sleepTotal (trace w3) = sleepTotal (trace w)" by simp_all
  show ?thesis
  proof (cases "findLatestVerificationCode ?sorted")
    case (Inl err)
    with assms i3 w2 w3 show ?thesis
      by (auto simp: scanMessages_def Let_def Date_now_def split: if_splits bool.splits)
  next
    case (Inr r)
    show ?thesis
    proof (cases r)
      case None
      with Inr assms i3 w2 w3 show ?thesis
        by (auto simp: scanMessages_def Let_def Date_now_def split: if_splits bool.splits)
    next
      case (Some info)
      obtain b4 w4 where i4: "isWithinMinutes e (v_time info) (Fin 3) w3 = (b4, w4)"
        by (cases "isWithinMinutes e (v_time info) (Fin 3) w3")
      from isWithinMinutes_frame[OF i4] w3
      have w4: "fetches w4 = fetches w" "sleepTotal (trace w4) = sleepTotal (trace w)"
        by simp_all
      from assms i3 i4 Inr Some w2 w3 w4 show ?thesis
        by (auto simp: scanMessages_def Let_def Date_now_def split: if_splits bool.splits)
    qed
  qed
qed

lemma attemptBody_frame:
  "attemptBody e d w = (x, w') \<Longrightarrow>
     fetches w' = fetches w \<and> sleepTotal (trace w') = sleepTotal (trace w)"
  by (auto simp: attemptBody_def dest: scanMessages_frame split: option.splits if_splits)

lemma fetchEmailList_frame:
  "fetchEmailList e token accountId n w = (r, w1) \<Longrightarrow>
     fetches w1 \<le> Suc (fetches w) \<and> sleepTotal (trace w1) = sleepTotal (trace w)"
  by (auto dest!: fetchEmailList_world simp: sleepTotal_append)

lemma pollFrom_bounds:
  "fetches (snd (pollFrom e token accountId i w)) \<le> fetches w + (maxRetries - i)
   \<and> sleepTotal (trace (snd (pollFrom e token accountId i w)))
       \<le> sleepTotal (trace w) + (maxRetries - 1 - i) * retryDelay"
proof (induction e token accountId i w rule: pollFrom.induct)
  case (1 e token accountId i w)
  show ?case
  proof (cases "i < maxRetries")
    case False
    then show ?thesis
      by (simp add: pollFrom_exhausted prompt_def consoleLog_def sleepTotal_append)
  next
    case True
    obtain r w1 where f: "fetchEmailList e token accountId 10
        (consoleLog (LogAttempt (i + 1) maxRetries) w) = (r, w1)"
      by (cases "fetchEmailList e token accountId 10 (consoleLog (LogAttempt (i + 1) maxRetries) w)")
    from fetchEmailList_frame[OF f]
    have w1: "fetches w1 \<le> Suc (fetches w)" "sleepTotal (trace w1) = sleepTotal (trace w)"
      by (simp_all add: consoleLog_def sleepTotal_append)
    show ?thesis
    proof (cases r)
      case (Inl err)
      with True f w1 show ?thesis by (simp add: pollFrom_fetch_fails)
    next
      case (Inr d)
      show ?thesis
      proof (cases d)
        case None
        with True f Inr w1 show ?thesis by (simp add: pollFrom_no_data)
      next
        case (Some ed)
        obtain x w2 where a: "attemptBody e ed w1 = (x, w2)" by (cases "attemptBody e ed w1")
        from attemptBody_frame[OF a] w1
        have w2: "fetches w2 \<le> Suc (fetches w)" "sleepTotal (trace w2) = sleepTotal (trace w)"
          by simp_all
        show ?thesis
        proof (cases x)
          case (Inl err)
          with True f Inr \<open>d = Some ed\<close> a w2 show ?thesis by (simp add: pollFrom_pass_fails)
        next
          case r: (Inr y)
          show ?thesis
          proof (cases y)
            case (Some info)
            with True f Inr \<open>d = Some ed\<close> a r w2 show ?thesis by (simp add: pollFrom_found)
          next
            case None
            define wn where "wn = (if i < maxRetries - 1 then sleep retryDelay w2 else w2)"
            from True f Inr \<open>d = Some ed\<close> a r None
            have step: "pollFrom e token accountId i w = pollFrom e token accountId (i + 1) wn"
              by (simp add: pollFrom_retry wn_def)
            from "1.IH"[OF True f[symmetric] Inr \<open>d = Some ed\<close> a[symmetric] r None]
            have ih: "fetches (snd (pollFrom e token accountId (i + 1) wn))
                        \<le> fetches wn + (maxRetries - (i + 1))"
              "sleepTotal (trace (snd (pollFrom e token accountId (i + 1) wn)))
                 \<le> sleepTotal (trace wn) + (maxRetries - 1 - (i + 1)) * retryDelay"
              by (simp_all add: wn_def)
            have fw: "fetches wn \<le> Suc (fetches w)"
              using w2 by (simp add: wn_def sleep_def)
            have sw: "sleepTotal (trace wn) + (maxRetries - 1 - (i + 1)) * retryDelay
                        \<le> sleepTotal (trace w) + (maxRetries - 1 - i) * retryDelay"
            proof (cases "i < maxRetries - 1")
              case True
              then have "maxRetries - 1 - i = Suc (maxRetries - 1 - (i + 1))" by simp
              with True w2 show ?thesis by (simp add: wn_def sleep_def sleepTotal_append)
            next
              case False
              with w2 show ?thesis by (simp add: wn_def)
            qed
            from ih fw sw True step show ?thesis by simp
          qed
        qed
      qed
    qed
  qed
qed

text \<open>The line after the loop is reached only after \<open>maxRetries\<close> requests.\<close>

lemma pollFrom_exhausted_fetches:
  "pollFrom e token accountId i w = (Inr Exhausted, w') \<Longrightarrow> i \<le> maxRetries \<Longrightarrow>
     fetches w' = fetches w + (maxRetries - i)"
proof (induction e token accountId i w rule: pollFrom.induct)
  case (1 e token accountId i w)
  show ?case
  proof (cases "i < maxRetries")
    case False
    with "1.prems" show ?thesis
      by (auto simp: pollFrom_exhausted prompt_def consoleLog_def)
  next
    case True
    obtain r w1 where f: "fetchEmailList e token accountId 10
        (consoleLog (LogAttempt (i + 1) maxRetries) w) = (r, w1)"
      by (cases "fetchEmailList e token accountId 10 (consoleLog (LogAttempt (i + 1) maxRetries) w)")
    show ?thesis
    proof (cases r)
      case (Inl err)
      with True f "1.prems" show ?thesis by (simp add: pollFrom_fetch_fails)
    next
      case (Inr d)
      from fetchEmailList_InrD[OF f[unfolded Inr]]
      have w1: "fetches w1 = Suc (fetches w)" by auto
      show ?thesis
      proof (cases d)
        case None
        with True f Inr "1.prems" show ?thesis by (simp add: pollFrom_no_data)
      next
        case (Some ed)
        obtain x w2 where a: "attemptBody e ed w1 = (x, w2)" by (cases "attemptBody e ed w1")
        from attemptBody_frame[OF a] w1 have w2: "fetches w2 = Suc (fetches w)" by simp
        show ?thesis
        proof (cases x)
          case (Inl err)
          with True f Inr \<open>d = Some ed\<close> a "1.prems" show ?thesis
            by (simp add: pollFrom_pass_fails)
        next
          case r: (Inr y)
          show ?thesis
          proof (cases y)
            case (Some info)
            with True f Inr \<open>d = Some ed\<close> a r "1.prems" show ?thesis
              by (simp add: pollFrom_found)
          next
            case None
            define wn where "wn = (if i < maxRetries - 1 then sleep retryDelay w2 else w2)"
            from True f Inr \<open>d = Some ed\<close> a r None "1.prems"
            have step: "pollFrom e token accountId (i + 1) wn = (Inr Exhausted, w')"
              by (simp add: pollFrom_retry wn_def)
            from True have le: "i + 1 \<le> maxRetries" by simp
            have "fetches w' = fetches wn + (maxRetries - (i + 1))"
              using "1.IH"[OF True f[symmetric] Inr \<open>d = Some ed\<close> a[symmetric] r None
                  step[unfolded wn_def] le]
              by (simp add: wn_def)
            moreover have "fetches wn = Suc (fetches w)"
              using w2 by (simp add: wn_def sleep_def)
            ultimately show ?thesis using True by simp
          qed
        qed
      qed
    qed
  qed
qed

text \<open>
  A session in which every fetch resolves with its data and no pass over fetched data
  throws returns normally.
\<close>

lemma pollFrom_resolves:
  assumes fetch: "\<And>w0. \<exists>d w1. fetchEmailList e token accountId 10 w0 = (Inr (Some d), w1)"
    and pass: "\<And>w0 d w1. fetchEmailList e token accountId 10 w0 = (Inr (Some d), w1) \<Longrightarrow>
                 \<exists>r w2. attemptBody e d w1 = (Inr r, w2)"
  shows "\<exists>out w'. pollFrom e token accountId i w = (Inr out, w')"
proof (induction "maxRetries - i" arbitrary: i w)
  case 0
  then have "\<not> i < maxRetries" by simp
  then show ?case by (simp add: pollFrom_exhausted)
next
  case (Suc n)
  then have i: "i < maxRetries" by simp
  from fetch obtain d w1 where
    f: "fetchEmailList e token accountId 10 (consoleLog (LogAttempt (i + 1) maxRetries) w)
          = (Inr (Some d), w1)" by blast
  from pass[OF f] obtain r w2 where a: "attemptBody e d w1 = (Inr r, w2)" by blast
  show ?case
  proof (cases r)
    case (Some info)
    with pollFrom_found[OF i f] a show ?thesis by simp
  next
    case None
    from Suc(2) have "n = maxRetries - (i + 1)" by simp
    from Suc(1)[OF this] obtain out w' where
      "pollFrom e token accountId (i + 1)
         (if i < maxRetries - 1 then sleep retryDelay w2 else w2) = (Inr out, w')" by blast
    with pollFrom_retry[OF i f] a None show ?thesis by simp
  qed
qed

subsection \<open>A mailbox that stays empty\<close>

lemmas loop_eval = pollLoop_def fetchEmailList_def attemptBody_def scanMessages_def sortedList_def
  arraySort_def stableSort_def consistentOn_def ltC_def eqC_def gtC_def compareFn_def sortKey_def
  isWithinMinutes_def Date_now_def consoleLog_def sleep_def prompt_def
  reportFound_def maxRetries_def retryDelay_def normalizeTimestamp_def Let_def senderOf_def

lemmas stub_eval = stubEnv_def okResponse_def failResponse_def world0_def mail_def

lemma pollFrom_empty_pass:
  assumes avail: "fetchAvailable e"
    and empty: "\<forall>k. \<exists>resp p d. network e k = Some resp \<and> ok resp \<and> json resp = Some p
                  \<and> code p = VNum (Fin 200) \<and> data p = Some d \<and> list d = Some []"
    and i: "i < maxRetries"
  shows "pollFrom e token accountId i w
           = pollFrom e token accountId (i + 1)
               (if i < maxRetries - 1
                then w\<lparr>fetches := Suc (fetches w),
                        trace := trace w @ [ConsoleLog (LogAttempt (i + 1) maxRetries),
                                            HttpGet accountId 10 token, ConsoleLog LogNoMail,
                                            Sleep retryDelay]\<rparr>
                else w\<lparr>fetches := Suc (fetches w),
                        trace := trace w @ [ConsoleLog (LogAttempt (i + 1) maxRetries),
                                            HttpGet accountId 10 token, ConsoleLog LogNoMail]\<rparr>)"
proof -
  from empty obtain resp p d where
    n: "network e (fetches w) = Some resp" "ok resp" "json resp = Some p"
       "code p = VNum (Fin 200)" "data p = Some d" "list d = Some []" by blast
  let ?w1 = "w\<lparr>fetches := Suc (fetches w),
                 trace := trace w @ [ConsoleLog (LogAttempt (i + 1) maxRetries),
                                     HttpGet accountId 10 token]\<rparr>"
  from avail n have f: "fetchEmailList e token accountId 10
      (consoleLog (LogAttempt (i + 1) maxRetries) w) = (Inr (Some d), ?w1)"
    by (simp add: fetchEmailList_def consoleLog_def)
  from n(6) have a: "attemptBody e d ?w1 = (Inr None, consoleLog LogNoMail ?w1)"
    by (simp add: attemptBody_def)
  from pollFrom_retry[OF i f a] show ?thesis
    by (simp add: consoleLog_def sleep_def)
qed

text \<open>
  C7, as stated: every session ends in \<open>Found\<close> or \<open>Exhausted\<close>. It does not. A session
  whose first request is answered with the status 500 ends in that error, after one
  request. And a session in which every fetch resolves with a list may still end in an
  error: when the newest message is recent and has no subject, the search for a code
  throws a TypeError, after one request, the line about the newest message and two
  readings of the clock.
\<close>

theorem found_or_exhausted_counterexample:
  "pollLoop (stubEnv UTC fixedClock failingNetwork) (ascii ''tok'') 7 world0
     = (Inl (HttpStatus 500),
        \<lparr>ticks = 0, fetches = 1,
         trace = [ConsoleLog (LogAttempt 1 5), HttpGet 7 10 (ascii ''tok'')]\<rparr>)
   \<and> pollLoop (stubEnv UTC fixedClock noSubjectNetwork) (ascii ''tok'') 7 world0
       = (Inl TypeError,
          \<lparr>ticks = 2, fetches = 1,
           trace = [ConsoleLog (LogAttempt 1 5), HttpGet 7 10 (ascii ''tok''),
                    ConsoleLog (LogLatest (VNum (Fin 1704074340)) (Fin 1704074340000)
                                  (Fin 1704074400000))]\<rparr>)"
proof -
  let ?tok = "ascii ''tok''"
  let ?e1 = "stubEnv UTC fixedClock failingNetwork"
  let ?e2 = "stubEnv UTC fixedClock noSubjectNetwork"
  let ?w1 = "\<lparr>ticks = 0, fetches = 1,
      trace = [ConsoleLog (LogAttempt 1 5), HttpGet 7 10 ?tok]\<rparr>"
  let ?w2 = "\<lparr>ticks = 2, fetches = 1,
      trace = [ConsoleLog (LogAttempt 1 5), HttpGet 7 10 ?tok,
               ConsoleLog (LogLatest (VNum (Fin 1704074340)) (Fin 1704074340000)
                             (Fin 1704074400000))]\<rparr>"
  have i0: "(0::nat) < maxRetries" by (simp add: maxRetries_def)
  have f1: "fetchEmailList ?e1 ?tok 7 10 (consoleLog (LogAttempt (0 + 1) maxRetries) world0)
      = (Inl (HttpStatus 500), ?w1)"
    by (simp add: fetchEmailList_def consoleLog_def stub_eval maxRetries_def failingNetwork_def)
  have f2: "fetchEmailList ?e2 ?tok 7 10 (consoleLog (LogAttempt (0 + 1) maxRetries) world0)
      = (Inr (Some \<lparr>list = Some [noSubjectMail]\<rparr>), ?w1)"
    by (simp add: fetchEmailList_def consoleLog_def stub_eval maxRetries_def
          noSubjectNetwork_def)
  have a2: "attemptBody ?e2 \<lparr>list = Some [noSubjectMail]\<rparr> ?w1 = (Inl TypeError, ?w2)"
    by (simp add: loop_eval stub_eval UTC_def noSubjectMail_def fixedClock_def)
  from pollFrom_fetch_fails[OF i0 f1] pollFrom_pass_fails[OF i0 f2 a2]
  show ?thesis by (simp add: pollLoop_def)
qed

text \<open>
  C7, amended: when every fetch resolves with an empty list, the session makes exactly 5
  fetches, sleeps 10000 ms after each of the first four and not after the fifth, then
  reports exhaustion and returns normally: the events of the session are exactly the ones
  listed. Every session ends with at most \<open>maxRetries\<close> fetches and at most
  \<open>(maxRetries - 1) * retryDelay\<close> ms of sleep, and one that ends in \<open>Exhausted\<close> has
  made exactly \<open>maxRetries\<close> fetches. A session ends in \<open>Found\<close> or \<open>Exhausted\<close>, and
  not in an error, when every fetch resolves with its data and no pass over the data of a
  response throws.
\<close>

theorem empty_mailbox_exhausts:
  "((fetchAvailable e
      \<and> (\<forall>k. \<exists>resp p d. network e k = Some resp \<and> ok resp \<and> json resp = Some p
               \<and> code p = VNum (Fin 200) \<and> data p = Some d \<and> list d = Some [])) \<longrightarrow>
     pollLoop e token accountId w
       = (Inr Exhausted,
          w\<lparr>fetches := fetches w + 5,
            trace := trace w @
              [ConsoleLog (LogAttempt 1 5), HttpGet accountId 10 token, ConsoleLog LogNoMail,
               Sleep 10000,
               ConsoleLog (LogAttempt 2 5), HttpGet accountId 10 token, ConsoleLog LogNoMail,
               Sleep 10000,
               ConsoleLog (LogAttempt 3 5), HttpGet accountId 10 token, ConsoleLog LogNoMail,
               Sleep 10000,
               ConsoleLog (LogAttempt 4 5), HttpGet accountId 10 token, ConsoleLog LogNoMail,
               Sleep 10000,
               ConsoleLog (LogAttempt 5 5), HttpGet accountId 10 token, ConsoleLog LogNoMail,
               ConsoleLog LogExhausted, Prompt]\<rparr>))
   \<and> fetches (snd (pollLoop e token accountId w)) \<le> fetches w + maxRetries
   \<and> sleepTotal (trace (snd (pollLoop e token accountId w)))
       \<le> sleepTotal (trace w) + (maxRetries - 1) * retryDelay
   \<and> (\<forall>w'. pollLoop e token accountId w = (Inr Exhausted, w') \<longrightarrow>
         fetches w' = fetches w + maxRetries)
   \<and> ((fetchAvailable e
        \<and> (\<forall>k. \<exists>resp p d. network e k = Some resp \<and> ok resp \<and> json resp = Some p
                 \<and> code p = VNum (Fin 200) \<and> data p = Some d)
        \<and> (\<forall>k resp p d w1. network e k = Some resp \<and> json resp = Some p \<and> data p = Some d \<longrightarrow>
              (\<exists>r w2. attemptBody e d w1 = (Inr r, w2)))) \<longrightarrow>
       (\<exists>out w'. pollLoop e token accountId w = (Inr out, w')))"
proof -
  have run: "pollLoop e token accountId w
       = (Inr Exhausted,
          w\<lparr>fetches := fetches w + 5,
            trace := trace w @
              [ConsoleLog (LogAttempt 1 5), HttpGet accountId 10 token, ConsoleLog LogNoMail,
               Sleep 10000,
               ConsoleLog (LogAttempt 2 5), HttpGet accountId 10 token, ConsoleLog LogNoMail,
               Sleep 10000,
               ConsoleLog (LogAttempt 3 5), HttpGet accountId 10 token, ConsoleLog LogNoMail,
               Sleep 10000,
               ConsoleLog (LogAttempt 4 5), HttpGet accountId 10 token, ConsoleLog LogNoMail,
               Sleep 10000,
               ConsoleLog (LogAttempt 5 5), HttpGet accountId 10 token, ConsoleLog LogNoMail,
               ConsoleLog LogExhausted, Prompt]\<rparr>)"
    if avail: "fetchAvailable e"
      and empty: "\<forall>k. \<exists>resp p d. network e k = Some resp \<and> ok resp \<and> json resp = Some p
               \<and> code p = VNum (Fin 200) \<and> data p = Some d \<and> list d = Some []"
  proof -
    note pass = pollFrom_empty_pass[OF avail empty, of _ token accountId]
    have p0: "pollFrom e token accountId 0 w = pollFrom e token accountId 1
        (w\<lparr>fetches := Suc (fetches w),
           trace := trace w @ [ConsoleLog (LogAttempt 1 5), HttpGet accountId 10 token,
                               ConsoleLog LogNoMail, Sleep 10000]\<rparr>)" for w
      using pass[of 0 w] unfolding maxRetries_def retryDelay_def by (simp del: One_nat_def)
    have p1: "pollFrom e token accountId 1 w = pollFrom e token accountId 2
        (w\<lparr>fetches := Suc (fetches w),
           trace := trace w @ [ConsoleLog (LogAttempt 2 5), HttpGet accountId 10 token,
                               ConsoleLog LogNoMail, Sleep 10000]\<rparr>)" for w
      using pass[of 1 w] unfolding maxRetries_def retryDelay_def by (simp del: One_nat_def)
    have p2: "pollFrom e token accountId 2 w = pollFrom e token accountId 3
        (w\<lparr>fetches := Suc (fetches w),
           trace := trace w @ [ConsoleLog (LogAttempt 3 5), HttpGet accountId 10 token,
                               ConsoleLog LogNoMail, Sleep 10000]\<rparr>)" for w
      using pass[of 2 w] unfolding maxRetries_def retryDelay_def by (simp del: One_nat_def)
    have p3: "pollFrom e token accountId 3 w = pollFrom e token accountId 4
        (w\<lparr>fetches := Suc (fetches w),
           trace := trace w @ [ConsoleLog (LogAttempt 4 5), HttpGet accountId 10 token,
                               ConsoleLog LogNoMail, Sleep 10000]\<rparr>)" for w
      using pass[of 3 w] unfolding maxRetries_def retryDelay_def by (simp del: One_nat_def)
    have p4: "pollFrom e token accountId 4 w = pollFrom e token accountId 5
        (w\<lparr>fetches := Suc (fetches w),
           trace := trace w @ [ConsoleLog (LogAttempt 5 5), HttpGet accountId 10 token,
                               ConsoleLog LogNoMail]\<rparr>)" for w
      using pass[of 4 w] unfolding maxRetries_def retryDelay_def by (simp del: One_nat_def)
    have p5: "pollFrom e token accountId 5 w
        = (Inr Exhausted, w\<lparr>trace := trace w @ [ConsoleLog LogExhausted, Prompt]\<rparr>)" for w
      using pollFrom_exhausted[of 5 e token accountId w]
      by (simp add: maxRetries_def prompt_def consoleLog_def)
    show ?thesis
      unfolding pollLoop_def p0 p1 p2 p3 p4 p5 by simp
  qed
  have bounds: "fetches (snd (pollLoop e token accountId w)) \<le> fetches w + maxRetries"
    "sleepTotal (trace (snd (pollLoop e token accountId w)))
       \<le> sleepTotal (trace w) + (maxRetries - 1) * retryDelay"
    using pollFrom_bounds[of e token accountId 0 w] by (simp_all add: pollLoop_def)
  have exact: "fetches w' = fetches w + maxRetries"
    if "pollLoop e token accountId w = (Inr Exhausted, w')" for w'
    using pollFrom_exhausted_fetches[of e token accountId 0 w w'] that
    by (simp add: pollLoop_def)
  have resolves: "\<exists>out w'. pollLoop e token accountId w = (Inr out, w')"
    if avail: "fetchAvailable e"
      and answers: "\<forall>k. \<exists>resp p d. network e k = Some resp \<and> ok resp \<and> json resp = Some p
                 \<and> code p = VNum (Fin 200) \<and> data p = Some d"
      and passes: "\<forall>k resp p d w1. network e k = Some resp \<and> json resp = Some p
                 \<and> data p = Some d \<longrightarrow> (\<exists>r w2. attemptBody e d w1 = (Inr r, w2))"
  proof -
    have fetch: "\<exists>d w1. fetchEmailList e token accountId 10 w0 = (Inr (Some d), w1)" for w0
    proof -
      from answers obtain resp p d where "network e (fetches w0) = Some resp" "ok resp"
        "json resp = Some p" "code p = VNum (Fin 200)" "data p = Some d" by blast
      with avail show ?thesis by (simp add: fetchEmailList_def)
    qed
    have pass: "\<exists>r w2. attemptBody e d w1 = (Inr r, w2)"
      if "fetchEmailList e token accountId 10 w0 = (Inr (Some d), w1)" for w0 d w1
    proof -
      from fetchEmailList_InrD[OF that] obtain resp p where
        "network e (fetches w0) = Some resp" "json resp = Some p" "data p = Some d" by blast
      with passes show ?thesis by blast
    qed
    from pollFrom_resolves[of e token accountId 0 w, OF fetch pass] show ?thesis
      by (simp add: pollLoop_def)
  qed
  from run bounds exact resolves show ?thesis by blast
qed

theorem empty_mailbox_exhausts_witness:
  "pollLoop (stubEnv UTC (\<lambda>k. 1704074400000) (\<lambda>k. Some (okResponse []))) (ascii ''tok'') 7 world0
     = (Inr Exhausted,
        \<lparr>ticks = 0, fetches = 5,
         trace =
           [ConsoleLog (LogAttempt 1 5), HttpGet 7 10 (ascii ''tok''), ConsoleLog LogNoMail,
            Sleep 10000,
            ConsoleLog (LogAttempt 2 5), HttpGet 7 10 (ascii ''tok''), ConsoleLog LogNoMail,
            Sleep 10000,
            ConsoleLog (LogAttempt 3 5), HttpGet 7 10 (ascii ''tok''), ConsoleLog LogNoMail,
            Sleep 10000,
            ConsoleLog (LogAttempt 4 5), HttpGet 7 10 (ascii ''tok''), ConsoleLog LogNoMail,
            Sleep 10000,
            ConsoleLog (LogAttempt 5 5), HttpGet 7 10 (ascii ''tok''), ConsoleLog LogNoMail,
            ConsoleLog LogExhausted, Prompt]\<rparr>)
   \<and> fetches (snd (pollLoop (stubEnv UTC (\<lambda>k. 1704074400000) (\<lambda>k. Some (okResponse [])))
                       (ascii ''tok'') 7 world0)) = 5
   \<and> (\<exists>out w'. pollLoop (stubEnv UTC (\<lambda>k. 1704074400000) (\<lambda>k. Some (okResponse [])))
                     (ascii ''tok'') 7 world0 = (Inr out, w'))"
proof -
  let ?e = "stubEnv UTC (\<lambda>k. 1704074400000) (\<lambda>k. Some (okResponse []))"
  let ?w = "\<lparr>ticks = 0, fetches = 5,
         trace =
           [ConsoleLog (LogAttempt 1 5), HttpGet 7 10 (ascii ''tok''), ConsoleLog LogNoMail,
            Sleep 10000,
            ConsoleLog (LogAttempt 2 5), HttpGet 7 10 (ascii ''tok''), ConsoleLog LogNoMail,
            Sleep 10000,
            ConsoleLog (LogAttempt 3 5), HttpGet 7 10 (ascii ''tok''), ConsoleLog LogNoMail,
            Sleep 10000,
            ConsoleLog (LogAttempt 4 5), HttpGet 7 10 (ascii ''tok''), ConsoleLog LogNoMail,
            Sleep 10000,
            ConsoleLog (LogAttempt 5 5), HttpGet 7 10 (ascii ''tok''), ConsoleLog LogNoMail,
            ConsoleLog LogExhausted, Prompt]\<rparr>"
  have h1: "fetchAvailable ?e
      \<and> (\<forall>k. \<exists>resp p d. network ?e k = Some resp \<and> ok resp \<and> json resp = Some p
               \<and> code p = VNum (Fin 200) \<and> data p = Some d \<and> list d = Some [])"
    by (simp add: stub_eval)
  have h2: "fetchAvailable ?e
      \<and> (\<forall>k. \<exists>resp p d. network ?e k = Some resp \<and> ok resp \<and> json resp = Some p
               \<and> code p = VNum (Fin 200) \<and> data p = Some d)
      \<and> (\<forall>k resp p d w1. network ?e k = Some resp \<and> json resp = Some p \<and> data p = Some d \<longrightarrow>
            (\<exists>r w2. attemptBody ?e d w1 = (Inr r, w2)))"
    by (auto simp: stub_eval attemptBody_def)
  note inst = empty_mailbox_exhausts[of ?e "ascii ''tok''" 7 world0]
  from inst h1 have run: "pollLoop ?e (ascii ''tok'') 7 world0 = (Inr Exhausted, ?w)"
    by (simp add: world0_def)
  from inst run have "fetches ?w = fetches world0 + maxRetries" by blast
  with run have exact: "fetches (snd (pollLoop ?e (ascii ''tok'') 7 world0)) = 5"
    by simp
  from inst h2 have "\<exists>out w'. pollLoop ?e (ascii ''tok'') 7 world0 = (Inr out, w')"
    by blast
  with run exact show ?thesis by blast
qed

subsection \<open>A fetch that fails\<close>

text \<open>
  C8: in every pass \<open>i\<close> of the loop, from every state, an error of \<^verbatim>\<open>fetchEmailList\<close>
  is the result of the whole session, and the final state is the one the failing fetch
  left: the last event is that request, with no sleep and no further attempt behind it.
  This holds for a status that is not a success, for a body that is not JSON and for a
  provider code other than 200.
\<close>

theorem fetch_error_propagates:
  "i < maxRetries \<longrightarrow>
      (\<forall>err w1.
          fetchEmailList e token accountId 10 (consoleLog (LogAttempt (i + 1) maxRetries) w)
            = (Inl err, w1) \<longrightarrow>
          pollFrom e token accountId i w = (Inl err, w1))
      \<and> (\<forall>resp. fetchAvailable e \<and> network e (fetches w) = Some resp \<and> \<not> ok resp \<longrightarrow>
            pollFrom e token accountId i w
              = (Inl (HttpStatus (status resp)),
                 w\<lparr>fetches := Suc (fetches w),
                   trace := trace w @ [ConsoleLog (LogAttempt (i + 1) maxRetries),
                                       HttpGet accountId 10 token]\<rparr>))
      \<and> (\<forall>resp. fetchAvailable e \<and> network e (fetches w) = Some resp \<and> ok resp
                 \<and> json resp = None \<longrightarrow>
            pollFrom e token accountId i w
              = (Inl BodyNotJson,
                 w\<lparr>fetches := Suc (fetches w),
                   trace := trace w @ [ConsoleLog (LogAttempt (i + 1) maxRetries),
                                       HttpGet accountId 10 token]\<rparr>))
      \<and> (\<forall>resp p. fetchAvailable e \<and> network e (fetches w) = Some resp \<and> ok resp
                 \<and> json resp = Some p \<and> code p \<noteq> VNum (Fin 200) \<longrightarrow>
            pollFrom e token accountId i w
              = (Inl (ProviderFailure (providerMessage (message p))),
                 w\<lparr>fetches := Suc (fetches w),
                   trace := trace w @ [ConsoleLog (LogAttempt (i + 1) maxRetries),
                                       HttpGet accountId 10 token]\<rparr>))"
proof -
  let ?w1 = "w\<lparr>fetches := Suc (fetches w),
                 trace := trace w @ [ConsoleLog (LogAttempt (i + 1) maxRetries),
                                     HttpGet accountId 10 token]\<rparr>"
  have any: "pollFrom e token accountId i w = (Inl err, w1)"
    if "i < maxRetries"
      "fetchEmailList e token accountId 10 (consoleLog (LogAttempt (i + 1) maxRetries) w)
         = (Inl err, w1)" for err w1
    using that by (rule pollFrom_fetch_fails)
  have http: "pollFrom e token accountId i w = (Inl (HttpStatus (status resp)), ?w1)"
    if "i < maxRetries" "fetchAvailable e" "network e (fetches w) = Some resp" "\<not> ok resp"
    for resp
    using that by (intro any) (simp_all add: fetchEmailList_def consoleLog_def)
  have body: "pollFrom e token accountId i w = (Inl BodyNotJson, ?w1)"
    if "i < maxRetries" "fetchAvailable e" "network e (fetches w) = Some resp" "ok resp"
      "json resp = None" for resp
    using that by (intro any) (simp_all add: fetchEmailList_def consoleLog_def)
  have provider: "pollFrom e token accountId i w
      = (Inl (ProviderFailure (providerMessage (message p))), ?w1)"
    if "i < maxRetries" "fetchAvailable e" "network e (fetches w) = Some resp" "ok resp"
      "json resp = Some p" "code p \<noteq> VNum (Fin 200)" for resp p
    using that by (intro any) (simp_all add: fetchEmailList_def consoleLog_def)
  from any http body provider show ?thesis by blast
qed

theorem fetch_error_propagates_witness:
  "pollLoop (stubEnv UTC (\<lambda>k. 1704074400000)
               (\<lambda>k. if k = 0 then Some (okResponse []) else Some (failResponse 503)))
      (ascii ''tok'') 7 world0
     = (Inl (HttpStatus 503),
        \<lparr>ticks = 0, fetches = 2,
         trace =
           [ConsoleLog (LogAttempt 1 5), HttpGet 7 10 (ascii ''tok''), ConsoleLog LogNoMail,
            Sleep 10000,
            ConsoleLog (LogAttempt 2 5), HttpGet 7 10 (ascii ''tok'')]\<rparr>)
   \<and> pollLoop (stubEnv UTC (\<lambda>k. 1704074400000) (\<lambda>k. Some badBodyResponse))
         (ascii ''tok'') 7 world0
       = (Inl BodyNotJson,
          \<lparr>ticks = 0, fetches = 1,
           trace = [ConsoleLog (LogAttempt 1 5), HttpGet 7 10 (ascii ''tok'')]\<rparr>)
   \<and> pollLoop (stubEnv UTC (\<lambda>k. 1704074400000) (\<lambda>k. Some providerErrorResponse))
         (ascii ''tok'') 7 world0
       = (Inl (ProviderFailure (ascii ''busy'')),
          \<lparr>ticks = 0, fetches = 1,
           trace = [ConsoleLog (LogAttempt 1 5), HttpGet 7 10 (ascii ''tok'')]\<rparr>)"
proof -
  let ?e = "stubEnv UTC (\<lambda>k. 1704074400000)
               (\<lambda>k. if k = 0 then Some (okResponse []) else Some (failResponse 503))"
  let ?eb = "stubEnv UTC (\<lambda>k. 1704074400000) (\<lambda>k. Some badBodyResponse)"
  let ?ep = "stubEnv UTC (\<lambda>k. 1704074400000) (\<lambda>k. Some providerErrorResponse)"
  let ?tok = "ascii ''tok''"
  let ?w1 = "\<lparr>ticks = 0, fetches = 1,
      trace = [ConsoleLog (LogAttempt 1 5), HttpGet 7 10 ?tok]\<rparr>"
  let ?w2 = "\<lparr>ticks = 0, fetches = 1,
      trace = [ConsoleLog (LogAttempt 1 5), HttpGet 7 10 ?tok, ConsoleLog LogNoMail]\<rparr>"
  let ?w3 = "\<lparr>ticks = 0, fetches = 1,
      trace = [ConsoleLog (LogAttempt 1 5), HttpGet 7 10 ?tok, ConsoleLog LogNoMail,
               Sleep 10000]\<rparr>"
  have i0: "(0::nat) < maxRetries" by (simp add: maxRetries_def)
  have f: "fetchEmailList ?e ?tok 7 10 (consoleLog (LogAttempt (0 + 1) maxRetries) world0)
      = (Inr (Some \<lparr>list = Some []\<rparr>), ?w1)"
    by (simp add: fetchEmailList_def consoleLog_def stub_eval maxRetries_def)
  have a: "attemptBody ?e \<lparr>list = Some []\<rparr> ?w1 = (Inr None, ?w2)"
    by (simp add: attemptBody_def consoleLog_def)
  from pollFrom_retry[OF i0 f a]
  have first: "pollFrom ?e ?tok 7 0 world0 = pollFrom ?e ?tok 7 1 ?w3"
    by (simp add: maxRetries_def retryDelay_def sleep_def)
  have h: "(1::nat) < maxRetries \<and> fetchAvailable ?e
      \<and> network ?e (fetches ?w3) = Some (failResponse 503) \<and> \<not> ok (failResponse 503)"
    by (simp add: maxRetries_def stub_eval)
  from fetch_error_propagates[of 1 ?e ?tok 7 ?w3] h
  have "pollFrom ?e ?tok 7 1 ?w3
      = (Inl (HttpStatus (status (failResponse 503))),
         ?w3\<lparr>fetches := Suc (fetches ?w3),
              trace := trace ?w3 @ [ConsoleLog (LogAttempt (1 + 1) maxRetries),
                                    HttpGet 7 10 ?tok]\<rparr>)"
    by blast
  with first have status: "pollLoop ?e ?tok 7 world0
      = (Inl (HttpStatus 503),
         \<lparr>ticks = 0, fetches = 2,
          trace =
            [ConsoleLog (LogAttempt 1 5), HttpGet 7 10 ?tok, ConsoleLog LogNoMail, Sleep 10000,
             ConsoleLog (LogAttempt 2 5), HttpGet 7 10 ?tok]\<rparr>)"
    by (simp add: pollLoop_def maxRetries_def failResponse_def)
  have hb: "fetchAvailable ?eb
      \<and> network ?eb (fetches world0) = Some badBodyResponse \<and> ok badBodyResponse
      \<and> json badBodyResponse = None"
    by (simp add: stubEnv_def badBodyResponse_def)
  from fetch_error_propagates[of 0 ?eb ?tok 7 world0, THEN mp, OF i0, THEN conjunct2,
      THEN conjunct2, THEN conjunct1, THEN spec, THEN mp, OF hb]
  have "pollFrom ?eb ?tok 7 0 world0
      = (Inl BodyNotJson,
         world0\<lparr>fetches := Suc (fetches world0),
                trace := trace world0 @ [ConsoleLog (LogAttempt (0 + 1) maxRetries),
                                         HttpGet 7 10 ?tok]\<rparr>)" .
  then have body: "pollLoop ?eb ?tok 7 world0 = (Inl BodyNotJson, ?w1)"
    by (simp add: pollLoop_def maxRetries_def world0_def)
  have hp: "fetchAvailable ?ep
      \<and> network ?ep (fetches world0) = Some providerErrorResponse \<and> ok providerErrorResponse
      \<and> json providerErrorResponse
            = Some \<lparr>code = VNum (Fin 500), message = Some (ascii ''busy''), data = None\<rparr>
      \<and> code \<lparr>code = VNum (Fin 500), message = Some (ascii ''busy''), data = None\<rparr>
            \<noteq> VNum (Fin 200)"
    by (simp add: stubEnv_def providerErrorResponse_def)
  from fetch_error_propagates[of 0 ?ep ?tok 7 world0, THEN mp, OF i0, THEN conjunct2,
      THEN conjunct2, THEN conjunct2, THEN spec, THEN spec, THEN mp, OF hp]
  have "pollFrom ?ep ?tok 7 0 world0
      = (Inl (ProviderFailure (providerMessage
                (message \<lparr>code = VNum (Fin 500), message = Some (ascii ''busy''),
                          data = None\<rparr>))),
         world0\<lparr>fetches := Suc (fetches world0),
                trace := trace world0 @ [ConsoleLog (LogAttempt (0 + 1) maxRetries),
                                         HttpGet 7 10 ?tok]\<rparr>)" .
  then have provider: "pollLoop ?ep ?tok 7 world0 = (Inl (ProviderFailure (ascii ''busy'')), ?w1)"
    by (simp add: pollLoop_def maxRetries_def world0_def providerMessage_def ascii_def)
  from status body provider show ?thesis by simp
qed

subsection \<open>The ranked list\<close>

text \<open>Whatever the keys are, the ranked list is a permutation of the fetched one.\<close>

lemma mset_insertSorted: "mset (insertSorted cmp x ys) = add_mset x (mset ys)"
  by (induction ys) simp_all

lemma mset_stableSort: "mset (stableSort cmp xs) = mset xs"
  by (induction xs) (simp_all add: stableSort_def mset_insertSorted)

lemma mset_insertAt: "mset (insertAt p x ys) = add_mset x (mset ys)"
proof -
  have "mset (take p ys) + mset (drop p ys) = mset ys"
    by (metis append_take_drop_id mset_append)
  then show ?thesis by (simp add: insertAt_def)
qed

lemma mset_arrange: "mset (arrange ps xs) = mset xs"
  by (induction xs arbitrary: ps) (simp_all add: mset_insertAt)

lemma mset_arraySort: "mset (arraySort choice cmp xs) = mset xs"
  by (simp add: arraySort_def mset_stableSort mset_arrange)

lemma mset_sortedList: "mset (sortedList e l) = mset l"
  by (simp add: sortedList_def mset_arraySort)

lemma set_sortedList: "set (sortedList e l) = set l"
  using mset_sortedList[of e l] by (rule mset_eq_setD)

text \<open>Every permutation is the choice of some engine.\<close>

lemma arrange_complete: "mset ys = mset xs \<Longrightarrow> \<exists>ps. arrange ps xs = ys"
proof (induction xs arbitrary: ys)
  case Nil
  then show ?case by simp
next
  case (Cons x xs)
  from Cons.prems have "x \<in> set ys" by (metis list.set_intros(1) mset_eq_setD)
  then obtain as bs where ys: "ys = as @ x # bs" by (auto simp: in_set_conv_decomp)
  with Cons.prems have "mset (as @ bs) = mset xs" by simp
  from Cons.IH[OF this] obtain ps where ps: "arrange ps xs = as @ bs" by blast
  have "arrange (length as # ps) (x # xs) = ys"
    by (simp add: ps ys insertAt_def)
  then show ?case by blast
qed

text \<open>
  A comparator that is the difference of a finite key is consistent, and the stable sort
  by it puts the larger key first and leaves the elements of one key in their order.
\<close>

lemma consistentOn_key:
  assumes "\<forall>a\<in>set xs. \<forall>b\<in>set xs. cmp a b = Fin (k b - k a)"
  shows "consistentOn cmp xs"
  using assms by (auto simp: consistentOn_def eqC_def ltC_def gtC_def)

lemma set_insertSorted: "set (insertSorted cmp x ys) = insert x (set ys)"
  by (induction ys) auto

lemma sorted_insertSorted:
  assumes "\<forall>a\<in>insert x (set ys). \<forall>b\<in>insert x (set ys). cmp a b = Fin (k b - k a)"
    and "sorted_wrt (\<lambda>a b. k b \<le> k a) ys"
  shows "sorted_wrt (\<lambda>a b. k b \<le> k a) (insertSorted cmp x ys)"
  using assms
proof (induction ys)
  case Nil
  then show ?case by simp
next
  case (Cons y ys)
  show ?case
  proof (cases "gtC cmp x y")
    case True
    with Cons.prems(1) have lt: "k x < k y" by (simp add: gtC_def)
    from Cons have "sorted_wrt (\<lambda>a b. k b \<le> k a) (insertSorted cmp x ys)" by simp
    with True lt Cons.prems(2) show ?thesis by (auto simp: set_insertSorted)
  next
    case False
    with Cons.prems(1) have "k y \<le> k x" by (simp add: gtC_def)
    with False Cons.prems(2) show ?thesis by auto
  qed
qed

lemma filter_insertSorted:
  assumes "\<forall>a\<in>insert x (set ys). \<forall>b\<in>insert x (set ys). cmp a b = Fin (k b - k a)"
  shows "filter (\<lambda>m. k m = v) (insertSorted cmp x ys) = filter (\<lambda>m. k m = v) (x # ys)"
  using assms
proof (induction ys)
  case Nil
  then show ?case by simp
next
  case (Cons y ys)
  show ?case
  proof (cases "gtC cmp x y")
    case True
    with Cons.prems(1) have lt: "k x < k y" by (simp add: gtC_def)
    from Cons have "filter (\<lambda>m. k m = v) (insertSorted cmp x ys) = filter (\<lambda>m. k m = v) (x # ys)"
      by simp
    with True lt show ?thesis by auto
  next
    case False
    then show ?thesis by simp
  qed
qed

lemma stableSort_key:
  assumes "\<forall>a\<in>set xs. \<forall>b\<in>set xs. cmp a b = Fin (k b - k a)"
  shows "sorted_wrt (\<lambda>a b. k b \<le> k a) (stableSort cmp xs)
       \<and> filter (\<lambda>m. k m = v) (stableSort cmp xs) = filter (\<lambda>m. k m = v) xs"
  using assms
proof (induction xs)
  case Nil
  then show ?case by (simp add: stableSort_def)
next
  case (Cons x xs)
  have step: "stableSort cmp (x # xs) = insertSorted cmp x (stableSort cmp xs)"
    by (simp add: stableSort_def)
  have s: "set (stableSort cmp xs) = set xs"
    using mset_stableSort[of cmp xs] by (rule mset_eq_setD)
  from Cons have ih: "sorted_wrt (\<lambda>a b. k b \<le> k a) (stableSort cmp xs)"
    "filter (\<lambda>m. k m = v) (stableSort cmp xs) = filter (\<lambda>m. k m = v) xs" by simp_all
  from Cons.prems s have c: "\<forall>a\<in>insert x (set (stableSort cmp xs)).
      \<forall>b\<in>insert x (set (stableSort cmp xs)). cmp a b = Fin (k b - k a)" by simp
  from sorted_insertSorted[OF c ih(1)] filter_insertSorted[OF c, of v] ih(2) step
  show ?case by simp
qed

text \<open>
  When the key of every message is finite, the ranked list is the stable sort: newest
  first, messages of one key in the order of the response.
\<close>

lemma sortedList_finite_keys:
  assumes fin: "\<forall>m\<in>set l. \<exists>x. sortKey e m = Fin x"
  shows "sortedList e l = stableSort (compareFn e) l"
    and "sorted_wrt (\<lambda>a b. js_le (sortKey e b) (sortKey e a)) (sortedList e l)"
    and "filter (\<lambda>m. sortKey e m = key) (sortedList e l) = filter (\<lambda>m. sortKey e m = key) l"
proof -
  define k where "k m = (case sortKey e m of Fin x \<Rightarrow> x | _ \<Rightarrow> 0)" for m
  from fin have key: "sortKey e m = Fin (k m)" if "m \<in> set l" for m
    using that by (auto simp: k_def)
  then have cmp: "\<forall>a\<in>set l. \<forall>b\<in>set l. compareFn e a b = Fin (k b - k a)"
    by (simp add: compareFn_def)
  from consistentOn_key[OF cmp] show eq: "sortedList e l = stableSort (compareFn e) l"
    by (simp add: sortedList_def arraySort_def)
  have s: "set (stableSort (compareFn e) l) = set l"
    using mset_stableSort[of "compareFn e" l] by (rule mset_eq_setD)
  from stableSort_key[OF cmp] have
    "sorted_wrt (\<lambda>a b. k b \<le> k a) (stableSort (compareFn e) l)" by blast
  then have "sorted_wrt (\<lambda>a b. js_le (sortKey e b) (sortKey e a)) (stableSort (compareFn e) l)"
    by (rule sorted_wrt_mono_rel[rotated]) (simp add: s key)
  with eq show "sorted_wrt (\<lambda>a b. js_le (sortKey e b) (sortKey e a)) (sortedList e l)"
    by simp
  show "filter (\<lambda>m. sortKey e m = key) (sortedList e l) = filter (\<lambda>m. sortKey e m = key) l"
  proof (cases "\<exists>v. key = Fin v")
    case True
    then obtain v where v: "key = Fin v" by blast
    have "filter (\<lambda>m. sortKey e m = key) (stableSort (compareFn e) l)
        = filter (\<lambda>m. k m = v) (stableSort (compareFn e) l)"
      by (rule filter_cong) (simp_all add: s key v)
    also from stableSort_key[OF cmp, of v] have "\<dots> = filter (\<lambda>m. k m = v) l" by blast
    also have "\<dots> = filter (\<lambda>m. sortKey e m = key) l"
      by (rule filter_cong) (simp_all add: key v)
    finally show ?thesis by (simp add: eq)
  next
    case False
    with key have "\<forall>m\<in>set l. sortKey e m \<noteq> key" by metis
    then have "filter (\<lambda>m. sortKey e m = key) l = []"
      "filter (\<lambda>m. sortKey e m = key) (stableSort (compareFn e) l) = []"
      by (simp_all add: s)
    then show ?thesis by (simp add: eq)
  qed
qed

subsection \<open>Where a reported code comes from\<close>

lemma findLatestVerificationCode_SomeD:
  "findLatestVerificationCode xs = Inr (Some info) \<Longrightarrow>
     \<exists>m\<in>set xs. subject m = VStr (v_subject info)
        \<and> extractVerificationCode (v_subject info) = Some (v_code info)
        \<and> v_time info = createTime m \<and> v_from info = senderOf m"
  by (induction xs) (auto split: option.splits jsval.splits)

lemma scanMessages_SomeD:
  assumes "scanMessages e l w = (Inr (Some info), w')"
  shows "\<exists>m\<in>set l. subject m = VStr (v_subject info)
           \<and> extractVerificationCode (v_subject info) = Some (v_code info)
           \<and> v_time info = createTime m
           \<and> v_from info = senderOf m
           \<and> (\<exists>w3 w4. isWithinMinutes e (createTime m) (Fin 3) w3 = (True, w4)
                 \<and> w' = reportFound info w4)"
proof -
  let ?sorted = "sortedList e l"
  let ?t = "case ?sorted of [] \<Rightarrow> VUndefined | m # _ \<Rightarrow> createTime m"
  let ?w2 = "consoleLog (LogLatest ?t (normalizeTimestamp (implDateParse e) ?t UTC)
      (Fin (clock e (ticks w)))) (w\<lparr>ticks := Suc (ticks w)\<rparr>)"
  obtain b3 w3 where i3: "isWithinMinutes e ?t (Fin 3) ?w2 = (b3, w3)"
    by (cases "isWithinMinutes e ?t (Fin 3) ?w2")
  from assms i3 obtain info' where f: "findLatestVerificationCode ?sorted = Inr (Some info')"
    by (cases "findLatestVerificationCode ?sorted")
       (auto simp: scanMessages_def Let_def Date_now_def
          split: if_splits bool.splits option.splits)
  obtain b4 w4 where i4: "isWithinMinutes e (v_time info') (Fin 3) w3 = (b4, w4)"
    by (cases "isWithinMinutes e (v_time info') (Fin 3) w3")
  from assms i3 f i4 have r: "info' = info" "b4" "w' = reportFound info w4"
    by (auto simp: scanMessages_def Let_def Date_now_def split: if_splits bool.splits)
  from findLatestVerificationCode_SomeD[OF f] r(1) obtain m where
    m: "m \<in> set ?sorted" "subject m = VStr (v_subject info)"
       "extractVerificationCode (v_subject info) = Some (v_code info)"
       "v_time info = createTime m" "v_from info = senderOf m"
    by blast
  from m(1) have "m \<in> set l" by (simp add: set_sortedList)
  moreover from i4 r m(4) have "isWithinMinutes e (createTime m) (Fin 3) w3 = (True, w4)"
    by simp
  ultimately show ?thesis using m r(3) by blast
qed

lemma attemptBody_SomeD:
  "attemptBody e d w = (Inr (Some info), w') \<Longrightarrow>
     \<exists>l. list d = Some l \<and> scanMessages e l w = (Inr (Some info), w')"
  by (auto simp: attemptBody_def split: option.splits if_splits)

lemma pollFrom_found_origin:
  "pollFrom e token accountId i w = (Inr (Found info), w') \<Longrightarrow>
     \<exists>j w0 d w1. i \<le> j \<and> j < maxRetries
        \<and> fetchEmailList e token accountId 10 (consoleLog (LogAttempt (j + 1) maxRetries) w0)
            = (Inr (Some d), w1)
        \<and> attemptBody e d w1 = (Inr (Some info), w')"
proof (induction e token accountId i w rule: pollFrom.induct)
  case (1 e token accountId i w)
  show ?case
  proof (cases "i < maxRetries")
    case False
    with "1.prems" show ?thesis by (simp add: pollFrom_exhausted)
  next
    case True
    obtain r w1 where f: "fetchEmailList e token accountId 10
        (consoleLog (LogAttempt (i + 1) maxRetries) w) = (r, w1)"
      by (cases "fetchEmailList e token accountId 10 (consoleLog (LogAttempt (i + 1) maxRetries) w)")
    show ?thesis
    proof (cases r)
      case (Inl err)
      with True f "1.prems" show ?thesis by (simp add: pollFrom_fetch_fails)
    next
      case (Inr d)
      show ?thesis
      proof (cases d)
        case None
        with True f Inr "1.prems" show ?thesis by (simp add: pollFrom_no_data)
      next
        case (Some ed)
        obtain x w2 where a: "attemptBody e ed w1 = (x, w2)" by (cases "attemptBody e ed w1")
        show ?thesis
        proof (cases x)
          case (Inl err)
          with True f Inr \<open>d = Some ed\<close> a "1.prems" show ?thesis
            by (simp add: pollFrom_pass_fails)
        next
          case r: (Inr y)
          show ?thesis
          proof (cases y)
            case (Some info')
            with True f Inr \<open>d = Some ed\<close> a r "1.prems" have "info' = info" "w2 = w'"
              by (simp_all add: pollFrom_found)
            with True f Inr \<open>d = Some ed\<close> a r Some show ?thesis
              by (intro exI[of _ i] exI[of _ w] exI[of _ ed] exI[of _ w1]) simp
          next
            case None
            with True f Inr \<open>d = Some ed\<close> a r "1.prems"
            have "pollFrom e token accountId (i + 1)
                    (if i < maxRetries - 1 then sleep retryDelay w2 else w2)
                    = (Inr (Found info), w')"
              by (simp add: pollFrom_retry)
            from "1.IH"[OF True f[symmetric] Inr \<open>d = Some ed\<close> a[symmetric] r None this]
            obtain j w0 d' w1' where "i + 1 \<le> j" "j < maxRetries"
              "fetchEmailList e token accountId 10 (consoleLog (LogAttempt (j + 1) maxRetries) w0)
                 = (Inr (Some d'), w1')"
              "attemptBody e d' w1' = (Inr (Some info), w')" by blast
            then show ?thesis
              by (intro exI[of _ j] exI[of _ w0] exI[of _ d'] exI[of _ w1']) simp
          qed
        qed
      qed
    qed
  qed
qed

text \<open>
  C2: whenever a session reports success, what it reports was extracted from a message of
  a fetched list (code, time, subject and sender are that message's), and the check
  \<^verbatim>\<open>isWithinMinutes(time, 3)\<close> on that message's own timestamp returned true in the
  state \<open>w3\<close> right before the report: the timestamp, normalized with the configured
  timezone, is not NaN and lies at most 180000 ms before the clock reading of that check.
  So a message with a code but a stale or unparsable timestamp is never reported.
\<close>

theorem found_only_when_recent:
  assumes "pollLoop e token accountId w = (Inr (Found info), w')"
  shows "\<exists>k resp p d l m w3 w4.
           network e k = Some resp \<and> json resp = Some p \<and> data p = Some d \<and> list d = Some l
           \<and> m \<in> set l
           \<and> subject m = VStr (v_subject info)
           \<and> extractVerificationCode (v_subject info) = Some (v_code info)
           \<and> v_time info = createTime m
           \<and> v_from info = senderOf m
           \<and> isWithinMinutes e (createTime m) (Fin 3) w3 = (True, w4)
           \<and> w' = reportFound info w4
           \<and> normalizeTimestamp (implDateParse e) (createTime m) (timezone e) \<noteq> NaN
           \<and> js_le (js_sub (Fin (clock e (ticks w3)))
                           (normalizeTimestamp (implDateParse e) (createTime m) (timezone e)))
                    (Fin 180000)"
proof -
  from assms have "pollFrom e token accountId 0 w = (Inr (Found info), w')"
    by (simp add: pollLoop_def)
  from pollFrom_found_origin[OF this] obtain j w0 d w1 where
    f: "fetchEmailList e token accountId 10 (consoleLog (LogAttempt (j + 1) maxRetries) w0)
          = (Inr (Some d), w1)"
    and a: "attemptBody e d w1 = (Inr (Some info), w')" by blast
  from fetchEmailList_InrD[OF f] obtain resp p where
    n: "network e (fetches (consoleLog (LogAttempt (j + 1) maxRetries) w0)) = Some resp"
       "json resp = Some p" "data p = Some d" by blast
  from attemptBody_SomeD[OF a] obtain l where
    l: "list d = Some l" "scanMessages e l w1 = (Inr (Some info), w')" by blast
  from scanMessages_SomeD[OF l(2)] obtain m w3 w4 where
    m: "m \<in> set l" "subject m = VStr (v_subject info)"
       "extractVerificationCode (v_subject info) = Some (v_code info)"
       "v_time info = createTime m" "v_from info = senderOf m"
       "isWithinMinutes e (createTime m) (Fin 3) w3 = (True, w4)" "w' = reportFound info w4"
    by blast
  from m(6) have "fst (isWithinMinutes e (createTime m) (Fin 3) w3)" by simp
  then have rec: "normalizeTimestamp (implDateParse e) (createTime m) (timezone e) \<noteq> NaN"
    "js_le (js_sub (Fin (clock e (ticks w3)))
                   (normalizeTimestamp (implDateParse e) (createTime m) (timezone e)))
           (Fin 180000)"
    by (simp_all add: isWithinMinutes_fst)
  from n l(1) m rec show ?thesis by blast
qed

lemma two_step_run:
  "pollLoop (stubEnv UTC (\<lambda>k. 1704074400000) twoStepNetwork) (ascii ''tok'') 7 world0
     = (Inr (Found foundInfo),
        \<lparr>ticks = 5, fetches = 2,
         trace =
           [ConsoleLog (LogAttempt 1 5), HttpGet 7 10 (ascii ''tok''),
            ConsoleLog (LogLatest (VNum (Fin 1704073800)) (Fin 1704073800000) (Fin 1704074400000)),
            ConsoleLog LogNotRecent, Sleep 10000,
            ConsoleLog (LogAttempt 2 5), HttpGet 7 10 (ascii ''tok''),
            ConsoleLog (LogLatest (VNum (Fin 1704074340)) (Fin 1704074340000) (Fin 1704074400000)),
            ConsoleLog LogFoundHeader, ConsoleLog LogRule, ConsoleLog (LogCode (ascii ''482913'')),
            ConsoleLog (LogReceived (VNum (Fin 1704074340))),
            ConsoleLog (LogSender (Some (ascii ''a@b.c''))),
            ConsoleLog (LogSubject (ascii ''code is 482913'')), ConsoleLog LogRule, Prompt]\<rparr>)"
proof -
  let ?e = "stubEnv UTC (\<lambda>k. 1704074400000) twoStepNetwork"
  let ?tok = "ascii ''tok''"
  let ?d1 = "\<lparr>list = Some [mail (ascii ''Welcome'') (VNum (Fin 1704073800))]\<rparr>"
  let ?d2 = "\<lparr>list = Some [mail (ascii ''code is 482913'') (VNum (Fin 1704074340))]\<rparr>"
  let ?w1 = "\<lparr>ticks = 0, fetches = 1,
      trace = [ConsoleLog (LogAttempt 1 5), HttpGet 7 10 ?tok]\<rparr>"
  let ?w2 = "\<lparr>ticks = 2, fetches = 1,
      trace = [ConsoleLog (LogAttempt 1 5), HttpGet 7 10 ?tok,
        ConsoleLog (LogLatest (VNum (Fin 1704073800)) (Fin 1704073800000) (Fin 1704074400000)),
        ConsoleLog LogNotRecent]\<rparr>"
  let ?w3 = "\<lparr>ticks = 2, fetches = 1,
      trace = [ConsoleLog (LogAttempt 1 5), HttpGet 7 10 ?tok,
        ConsoleLog (LogLatest (VNum (Fin 1704073800)) (Fin 1704073800000) (Fin 1704074400000)),
        ConsoleLog LogNotRecent, Sleep 10000]\<rparr>"
  let ?w4 = "\<lparr>ticks = 2, fetches = 2,
      trace = [ConsoleLog (LogAttempt 1 5), HttpGet 7 10 ?tok,
        ConsoleLog (LogLatest (VNum (Fin 1704073800)) (Fin 1704073800000) (Fin 1704074400000)),
        ConsoleLog LogNotRecent, Sleep 10000,
        ConsoleLog (LogAttempt 2 5), HttpGet 7 10 ?tok]\<rparr>"
  let ?w5 = "\<lparr>ticks = 5, fetches = 2,
         trace =
           [ConsoleLog (LogAttempt 1 5), HttpGet 7 10 (ascii ''tok''),
            ConsoleLog (LogLatest (VNum (Fin 1704073800)) (Fin 1704073800000) (Fin 1704074400000)),
            ConsoleLog LogNotRecent, Sleep 10000,
            ConsoleLog (LogAttempt 2 5), HttpGet 7 10 (ascii ''tok''),
            ConsoleLog (LogLatest (VNum (Fin 1704074340)) (Fin 1704074340000) (Fin 1704074400000)),
            ConsoleLog LogFoundHeader, ConsoleLog LogRule, ConsoleLog (LogCode (ascii ''482913'')),
            ConsoleLog (LogReceived (VNum (Fin 1704074340))),
            ConsoleLog (LogSender (Some (ascii ''a@b.c''))),
            ConsoleLog (LogSubject (ascii ''code is 482913'')), ConsoleLog LogRule, Prompt]\<rparr>"
  have i0: "(0::nat) < maxRetries" and i1: "(1::nat) < maxRetries"
    by (simp_all add: maxRetries_def)
  have f1: "fetchEmailList ?e ?tok 7 10 (consoleLog (LogAttempt (0 + 1) maxRetries) world0)
      = (Inr (Some ?d1), ?w1)"
    by (simp add: fetchEmailList_def consoleLog_def stub_eval maxRetries_def twoStepNetwork_def)
  have a1: "attemptBody ?e ?d1 ?w1 = (Inr None, ?w2)"
    by (simp add: loop_eval stub_eval UTC_def)
  from pollFrom_retry[OF i0 f1 a1]
  have s1: "pollFrom ?e ?tok 7 0 world0 = pollFrom ?e ?tok 7 1 ?w3"
    by (simp add: maxRetries_def retryDelay_def sleep_def)
  have f2: "fetchEmailList ?e ?tok 7 10 (consoleLog (LogAttempt (1 + 1) maxRetries) ?w3)
      = (Inr (Some ?d2), ?w4)"
    by (simp add: fetchEmailList_def consoleLog_def stub_eval maxRetries_def twoStepNetwork_def)
  have x: "extractVerificationCode (ascii ''code is 482913'') = Some (ascii ''482913'')"
    by (simp add: extract_eval)
  have a2: "attemptBody ?e ?d2 ?w4 = (Inr (Some foundInfo), ?w5)"
    by (simp add: loop_eval stub_eval UTC_def x foundInfo_def)
  from pollFrom_found[OF i1 f2 a2] s1 show ?thesis by (simp add: pollLoop_def)
qed

theorem found_only_when_recent_witness:
  "pollLoop (stubEnv UTC (\<lambda>k. 1704074400000) twoStepNetwork) (ascii ''tok'') 7 world0
     = (Inr (Found foundInfo),
        \<lparr>ticks = 5, fetches = 2,
         trace =
           [ConsoleLog (LogAttempt 1 5), HttpGet 7 10 (ascii ''tok''),
            ConsoleLog (LogLatest (VNum (Fin 1704073800)) (Fin 1704073800000) (Fin 1704074400000)),
            ConsoleLog LogNotRecent, Sleep 10000,
            ConsoleLog (LogAttempt 2 5), HttpGet 7 10 (ascii ''tok''),
            ConsoleLog (LogLatest (VNum (Fin 1704074340)) (Fin 1704074340000) (Fin 1704074400000)),
            ConsoleLog LogFoundHeader, ConsoleLog LogRule, ConsoleLog (LogCode (ascii ''482913'')),
            ConsoleLog (LogReceived (VNum (Fin 1704074340))),
            ConsoleLog (LogSender (Some (ascii ''a@b.c''))),
            ConsoleLog (LogSubject (ascii ''code is 482913'')), ConsoleLog LogRule, Prompt]\<rparr>)
   \<and> normalizeTimestamp (\<lambda>s. NaN) (v_time foundInfo) UTC = Fin 1704074340000
   \<and> (\<exists>k resp p d l m w3 w4.
         twoStepNetwork k = Some resp \<and> json resp = Some p \<and> data p = Some d
         \<and> list d = Some l \<and> m \<in> set l
         \<and> subject m = VStr (ascii ''code is 482913'')
         \<and> extractVerificationCode (ascii ''code is 482913'') = Some (ascii ''482913'')
         \<and> createTime m = VNum (Fin 1704074340)
         \<and> isWithinMinutes (stubEnv UTC (\<lambda>k. 1704074400000) twoStepNetwork)
              (createTime m) (Fin 3) w3 = (True, w4))"
proof -
  let ?e = "stubEnv UTC (\<lambda>k. 1704074400000) twoStepNetwork"
  have n: "normalizeTimestamp (\<lambda>s. NaN) (v_time foundInfo) UTC = Fin 1704074340000"
    by (simp add: normalizeTimestamp_def foundInfo_def)
  from found_only_when_recent[OF two_step_run] obtain k resp p d l m w3 w4 where
    "network ?e k = Some resp" "json resp = Some p" "data p = Some d" "list d = Some l"
    "m \<in> set l" "subject m = VStr (v_subject foundInfo)"
    "extractVerificationCode (v_subject foundInfo) = Some (v_code foundInfo)"
    "v_time foundInfo = createTime m"
    "isWithinMinutes ?e (createTime m) (Fin 3) w3 = (True, w4)"
    by blast
  then have "twoStepNetwork k = Some resp \<and> json resp = Some p \<and> data p = Some d
         \<and> list d = Some l \<and> m \<in> set l
         \<and> subject m = VStr (ascii ''code is 482913'')
         \<and> extractVerificationCode (ascii ''code is 482913'') = Some (ascii ''482913'')
         \<and> createTime m = VNum (Fin 1704074340)
         \<and> isWithinMinutes ?e (createTime m) (Fin 3) w3 = (True, w4)"
    by (simp add: stubEnv_def foundInfo_def)
  then have "\<exists>k resp p d l m w3 w4.
         twoStepNetwork k = Some resp \<and> json resp = Some p \<and> data p = Some d
         \<and> list d = Some l \<and> m \<in> set l
         \<and> subject m = VStr (ascii ''code is 482913'')
         \<and> extractVerificationCode (ascii ''code is 482913'') = Some (ascii ''482913'')
         \<and> createTime m = VNum (Fin 1704074340)
         \<and> isWithinMinutes ?e (createTime m) (Fin 3) w3 = (True, w4)"
    by blast
  with two_step_run n show ?thesis by blast
qed

section \<open>The ranking step and the configured timezone\<close>

text \<open>
  A string that is not a number and shows no offset gets the offset of the timezone
  argument appended; its value then is the value of its date and time at that offset.
\<close>

lemma isoDateTime_split:
  assumes "length X = 6" and "last X \<noteq> 0x5A"
  shows "isoDateTime (b @ X)
           = do {
               off \<leftarrow> isoOffset X;
               (y, mo, d, h, mi, sec, ms) \<leftarrow> isoBody b;
               Some (timeValue y mo d h mi sec ms off)
             }"
proof -
  from assms(1) have ne: "X \<noteq> []" by auto
  with assms show ?thesis by (simp add: isoDateTime_def Let_def)
qed

lemma takeDigits_pad2:
  "n < 100 \<Longrightarrow> takeDigits 2 (pad2 n @ r) = Some (n, r)"
proof -
  assume n: "n < 100"
  then have d: "isDigit (48 + n div 10)" "isDigit (48 + n mod 10)"
    by (simp_all add: isDigit_def)
  then have "radixValue 10 [48 + n div 10, 48 + n mod 10] = n"
    by (simp add: radixValue_def hexVal_def)
  with d show ?thesis by (simp add: takeDigits_def pad2_def)
qed

lemma isoOffset_offsetStr:
  assumes "sg = 0x2B \<or> sg = 0x2D" and "hh \<le> 23" and "mm \<le> 59"
  shows "isoOffset (sg # pad2 hh @ 0x3A # pad2 mm)
           = Some ((if sg = 0x2D then - 1 else 1) * int (hh * 60 + mm))"
proof -
  from assms have h: "hh < 100" "mm < 100" by simp_all
  have "takeDigits 2 (pad2 mm) = Some (mm, [])"
    using takeDigits_pad2[OF h(2), of "[]"] by simp
  with assms takeDigits_pad2[OF h(1), of "0x3A # pad2 mm"] show ?thesis
    by (auto simp: isoOffset_def expect_def)
qed

lemma offsetStr_shape:
  assumes "mm \<le> 59"
  shows "length (sg # pad2 hh @ 0x3A # pad2 mm) = 6"
    and "last (sg # pad2 hh @ 0x3A # pad2 mm) \<noteq> 0x5A"
  using assms by (simp_all add: pad2_def)

lemma execTz_UTC: "execTz UTC = Some (None, None, None)"
  by (simp add: execTz_def UTC_def ascii_def)

lemma normalizeTimestamp_naive:
  assumes "Number (VStr s) = NaN" and "\<not> hasOffset (trim s)"
    and "execTz tz = Some (g1, g2, g3)"
  shows "normalizeTimestamp impl (VStr s) tz
           = Date_parse impl
               (replaceSpace (trim s)
                @ (if g1 = Some [0x2D] then 0x2D else 0x2B) # pad2 (groupNumber g2)
                @ 0x3A # pad2 (groupNumber g3))"
  using assms by (simp add: normalizeTimestamp_def stringOrEmpty_def Let_def)

lemma normalizeTimestamp_naive_value:
  assumes naive: "Number (VStr s) = NaN" "\<not> hasOffset (trim s)"
    and body: "isoBody (replaceSpace (trim s)) = Some (y, mo, d, h, mi, sec, ms)"
    and tz: "execTz tz = Some (g1, g2, g3)" "groupNumber g2 \<le> 23" "groupNumber g3 \<le> 59"
  shows "normalizeTimestamp impl (VStr s) tz
           = Fin (real_of_int
               (timeValue y mo d h mi sec ms
                  ((if g1 = Some [0x2D] then - 1 else 1)
                   * int (groupNumber g2 * 60 + groupNumber g3))))"
proof -
  let ?sg = "if g1 = Some [0x2D] then 0x2D else (0x2B::nat)"
  let ?X = "?sg # pad2 (groupNumber g2) @ 0x3A # pad2 (groupNumber g3)"
  have sg: "?sg = 0x2B \<or> ?sg = 0x2D" by simp
  have off: "isoOffset ?X
      = Some ((if g1 = Some [0x2D] then - 1 else 1) * int (groupNumber g2 * 60 + groupNumber g3))"
    using isoOffset_offsetStr[OF sg tz(2,3)] by simp
  from isoDateTime_split[OF offsetStr_shape[OF tz(3), of ?sg "groupNumber g2"],
      of "replaceSpace (trim s)"] off body
  have "isoDateTime (replaceSpace (trim s) @ ?X)
      = Some (timeValue y mo d h mi sec ms
          ((if g1 = Some [0x2D] then - 1 else 1) * int (groupNumber g2 * 60 + groupNumber g3)))"
    by simp
  with normalizeTimestamp_naive[OF naive tz(1), of impl] show ?thesis
    by (simp add: Date_parse_def)
qed

lemma timeValue_offset:
  "timeValue y mo d h mi sec ms off = timeValue y mo d h mi sec ms 0 - off * 60000"
  by (simp add: timeValue_def)

lemma scanMessages_head_log:
  "\<exists>evs. trace (snd (scanMessages e l w))
      = trace w
        @ ConsoleLog
            (LogLatest (case sortedList e l of [] \<Rightarrow> VUndefined | m # _ \<Rightarrow> createTime m)
               (normalizeTimestamp (implDateParse e)
                  (case sortedList e l of [] \<Rightarrow> VUndefined | m # _ \<Rightarrow> createTime m) UTC)
               (Fin (clock e (ticks w))))
        # evs"
proof -
  let ?sorted = "sortedList e l"
  let ?t = "case ?sorted of [] \<Rightarrow> VUndefined | m # _ \<Rightarrow> createTime m"
  let ?ev = "ConsoleLog (LogLatest ?t (normalizeTimestamp (implDateParse e) ?t UTC)
      (Fin (clock e (ticks w))))"
  let ?w2 = "consoleLog (LogLatest ?t (normalizeTimestamp (implDateParse e) ?t UTC)
      (Fin (clock e (ticks w)))) (w\<lparr>ticks := Suc (ticks w)\<rparr>)"
  have w2: "trace ?w2 = trace w @ [?ev]" by (simp add: consoleLog_def)
  obtain b3 w3 where i3: "isWithinMinutes e ?t (Fin 3) ?w2 = (b3, w3)"
    by (cases "isWithinMinutes e ?t (Fin 3) ?w2")
  from isWithinMinutes_frame[OF i3] w2 have w3: "trace w3 = trace w @ [?ev]" by simp
  show ?thesis
  proof (cases "findLatestVerificationCode ?sorted")
    case (Inl err)
    with i3 w2 w3 show ?thesis
      by (auto simp: scanMessages_def Let_def Date_now_def consoleLog_def
            split: if_splits bool.splits)
  next
    case (Inr r)
    show ?thesis
    proof (cases r)
      case None
      with Inr i3 w2 w3 show ?thesis
        by (auto simp: scanMessages_def Let_def Date_now_def consoleLog_def
              split: if_splits bool.splits)
    next
      case (Some info)
      obtain b4 w4 where i4: "isWithinMinutes e (v_time info) (Fin 3) w3 = (b4, w4)"
        by (cases "isWithinMinutes e (v_time info) (Fin 3) w3")
      from isWithinMinutes_frame[OF i4] w3 have w4: "trace w4 = trace w @ [?ev]" by simp
      from i3 i4 Inr Some w2 w3 w4 show ?thesis
        by (auto simp: scanMessages_def Let_def Date_now_def consoleLog_def reportFound_def
              prompt_def split: if_splits bool.splits)
    qed
  qed
qed

text \<open>
  C5: the ranking step sorts by \<^verbatim>\<open>normalizeTimestamp(createTime)\<close> with the default
  timezone \<open>UTC\<close>. The ranked list is a permutation of the fetched one, and it is the
  same for every configured timezone. When the key of every message is a finite number,
  the ranked list is in the order of the keys, the largest first, and the messages of one
  key keep the order they had in the response; the configured timezone plays no part in
  the keys. The line logged for the head message shows the head's key, with \<open>UTC\<close> too.
  Consequently, for a timestamp string that is not a number, shows no offset and is a
  date and time of the form \<^verbatim>\<open>YYYY-MM-DD HH:mm:ss\<close>, under a configured timezone
  \<^verbatim>\<open>UTC+HH:MM\<close> or \<^verbatim>\<open>UTC-HH:MM\<close> with an offset other than zero (hours up to 23,
  minutes up to 59), the sort key is the instant at offset zero, and it differs, by the
  configured offset, from the instant \<^verbatim>\<open>isWithinMinutes\<close> compares with the clock.
\<close>

theorem ranking_ignores_timezone:
  "(\<forall>tz. sortedList (e\<lparr>timezone := tz\<rparr>) l = sortedList e l)
   \<and> mset (sortedList e l) = mset l
   \<and> ((\<forall>m\<in>set l. \<exists>x. normalizeTimestamp (implDateParse e) (createTime m) UTC = Fin x) \<longrightarrow>
        sorted_wrt
          (\<lambda>a b. js_le (normalizeTimestamp (implDateParse e) (createTime b) UTC)
                       (normalizeTimestamp (implDateParse e) (createTime a) UTC))
          (sortedList e l)
        \<and> (\<forall>t. filter (\<lambda>m. normalizeTimestamp (implDateParse e) (createTime m) UTC = t)
                   (sortedList e l)
                 = filter (\<lambda>m. normalizeTimestamp (implDateParse e) (createTime m) UTC = t) l))
   \<and> (\<exists>evs. trace (snd (scanMessages e l w))
          = trace w
            @ ConsoleLog
                (LogLatest (case sortedList e l of [] \<Rightarrow> VUndefined | m # _ \<Rightarrow> createTime m)
                   (normalizeTimestamp (implDateParse e)
                      (case sortedList e l of [] \<Rightarrow> VUndefined | m # _ \<Rightarrow> createTime m) UTC)
                   (Fin (clock e (ticks w))))
            # evs)
   \<and> (\<forall>s g1 g2 g3 y mo d h mi sec ms m w'.
         Number (VStr s) = NaN \<and> \<not> hasOffset (trim s)
         \<and> isoBody (replaceSpace (trim s)) = Some (y, mo, d, h, mi, sec, ms)
         \<and> execTz (timezone e) = Some (g1, g2, g3)
         \<and> groupNumber g2 \<le> 23 \<and> groupNumber g3 \<le> 59
         \<and> 0 < groupNumber g2 * 60 + groupNumber g3 \<longrightarrow>
           normalizeTimestamp (implDateParse e) (VStr s) UTC
             = Fin (real_of_int (timeValue y mo d h mi sec ms 0))
           \<and> normalizeTimestamp (implDateParse e) (VStr s) (timezone e)
               = Fin (real_of_int
                   (timeValue y mo d h mi sec ms 0
                    - (if g1 = Some [0x2D] then - 1 else 1)
                      * int (groupNumber g2 * 60 + groupNumber g3) * 60000))
           \<and> normalizeTimestamp (implDateParse e) (VStr s) UTC
               \<noteq> normalizeTimestamp (implDateParse e) (VStr s) (timezone e)
           \<and> fst (isWithinMinutes e (VStr s) m w')
               = js_le (js_sub (Fin (clock e (ticks w')))
                               (Fin (real_of_int
                                  (timeValue y mo d h mi sec ms 0
                                   - (if g1 = Some [0x2D] then - 1 else 1)
                                     * int (groupNumber g2 * 60 + groupNumber g3) * 60000))))
                       (js_mul m (Fin 60000)))"
proof -
  have rank: "sortedList (e\<lparr>timezone := tz\<rparr>) l = sortedList e l" for tz
  proof -
    have "compareFn (e\<lparr>timezone := tz\<rparr>) = compareFn e"
      by (intro ext) (simp add: compareFn_def sortKey_def)
    then show ?thesis by (simp add: sortedList_def)
  qed
  have ordered: "sorted_wrt
          (\<lambda>a b. js_le (normalizeTimestamp (implDateParse e) (createTime b) UTC)
                       (normalizeTimestamp (implDateParse e) (createTime a) UTC))
          (sortedList e l)
        \<and> (\<forall>t. filter (\<lambda>m. normalizeTimestamp (implDateParse e) (createTime m) UTC = t)
                   (sortedList e l)
                 = filter (\<lambda>m. normalizeTimestamp (implDateParse e) (createTime m) UTC = t) l)"
    if fin: "\<forall>m\<in>set l. \<exists>x. normalizeTimestamp (implDateParse e) (createTime m) UTC = Fin x"
  proof -
    from fin have f: "\<forall>m\<in>set l. \<exists>x. sortKey e m = Fin x" by (simp add: sortKey_def)
    from sortedList_finite_keys(2)[OF f] sortedList_finite_keys(3)[OF f]
    show ?thesis by (simp add: sortKey_def)
  qed
  have naive: "normalizeTimestamp (implDateParse e) (VStr s) UTC
             = Fin (real_of_int (timeValue y mo d h mi sec ms 0))
           \<and> normalizeTimestamp (implDateParse e) (VStr s) (timezone e)
               = Fin (real_of_int
                   (timeValue y mo d h mi sec ms 0
                    - (if g1 = Some [0x2D] then - 1 else 1)
                      * int (groupNumber g2 * 60 + groupNumber g3) * 60000))
           \<and> normalizeTimestamp (implDateParse e) (VStr s) UTC
               \<noteq> normalizeTimestamp (implDateParse e) (VStr s) (timezone e)
           \<and> fst (isWithinMinutes e (VStr s) m w')
               = js_le (js_sub (Fin (clock e (ticks w')))
                               (Fin (real_of_int
                                  (timeValue y mo d h mi sec ms 0
                                   - (if g1 = Some [0x2D] then - 1 else 1)
                                     * int (groupNumber g2 * 60 + groupNumber g3) * 60000))))
                       (js_mul m (Fin 60000))"
    if n: "Number (VStr s) = NaN" "\<not> hasOffset (trim s)"
      and b: "isoBody (replaceSpace (trim s)) = Some (y, mo, d, h, mi, sec, ms)"
      and tz: "execTz (timezone e) = Some (g1, g2, g3)" "groupNumber g2 \<le> 23"
        "groupNumber g3 \<le> 59"
      and nz: "0 < groupNumber g2 * 60 + groupNumber g3"
    for s g1 g2 g3 y mo d h mi sec ms m w'
  proof -
    let ?off = "(if g1 = Some [0x2D] then - 1 else 1) * int (groupNumber g2 * 60 + groupNumber g3)"
    have key: "normalizeTimestamp (implDateParse e) (VStr s) UTC
        = Fin (real_of_int (timeValue y mo d h mi sec ms 0))"
      using normalizeTimestamp_naive_value[OF n b execTz_UTC, of "implDateParse e"]
      by (simp add: groupNumber_def)
    have inst: "normalizeTimestamp (implDateParse e) (VStr s) (timezone e)
        = Fin (real_of_int (timeValue y mo d h mi sec ms 0 - ?off * 60000))"
      using normalizeTimestamp_naive_value[OF n b tz, of "implDateParse e"]
        timeValue_offset[of y mo d h mi sec ms ?off]
      by simp
    from nz have "int (groupNumber g2 * 60 + groupNumber g3) \<noteq> 0" by linarith
    then have "?off \<noteq> 0" by (simp del: of_nat_add of_nat_mult)
    then have "timeValue y mo d h mi sec ms 0 \<noteq> timeValue y mo d h mi sec ms 0 - ?off * 60000"
      by simp
    with key inst have differ: "normalizeTimestamp (implDateParse e) (VStr s) UTC
        \<noteq> normalizeTimestamp (implDateParse e) (VStr s) (timezone e)"
      by simp
    from inst have recent: "fst (isWithinMinutes e (VStr s) m w')
        = js_le (js_sub (Fin (clock e (ticks w')))
                        (Fin (real_of_int (timeValue y mo d h mi sec ms 0 - ?off * 60000))))
                (js_mul m (Fin 60000))"
      by (simp add: isWithinMinutes_fst)
    from key inst differ recent show ?thesis by blast
  qed
  have p1: "\<forall>tz. sortedList (e\<lparr>timezone := tz\<rparr>) l = sortedList e l"
    using rank by blast
  note p2 = mset_sortedList[of e l]
  have p3: "(\<forall>m\<in>set l. \<exists>x. normalizeTimestamp (implDateParse e) (createTime m) UTC = Fin x) \<longrightarrow>
        sorted_wrt
          (\<lambda>a b. js_le (normalizeTimestamp (implDateParse e) (createTime b) UTC)
                       (normalizeTimestamp (implDateParse e) (createTime a) UTC))
          (sortedList e l)
        \<and> (\<forall>t. filter (\<lambda>m. normalizeTimestamp (implDateParse e) (createTime m) UTC = t)
                   (sortedList e l)
                 = filter (\<lambda>m. normalizeTimestamp (implDateParse e) (createTime m) UTC = t) l)"
    using ordered by (rule impI)
  note p4 = scanMessages_head_log[of e l w]
  have p5: "\<forall>s g1 g2 g3 y mo d h mi sec ms m w'.
         Number (VStr s) = NaN \<and> \<not> hasOffset (trim s)
         \<and> isoBody (replaceSpace (trim s)) = Some (y, mo, d, h, mi, sec, ms)
         \<and> execTz (timezone e) = Some (g1, g2, g3)
         \<and> groupNumber g2 \<le> 23 \<and> groupNumber g3 \<le> 59
         \<and> 0 < groupNumber g2 * 60 + groupNumber g3 \<longrightarrow>
           normalizeTimestamp (implDateParse e) (VStr s) UTC
             = Fin (real_of_int (timeValue y mo d h mi sec ms 0))
           \<and> normalizeTimestamp (implDateParse e) (VStr s) (timezone e)
               = Fin (real_of_int
                   (timeValue y mo d h mi sec ms 0
                    - (if g1 = Some [0x2D] then - 1 else 1)
                      * int (groupNumber g2 * 60 + groupNumber g3) * 60000))
           \<and> normalizeTimestamp (implDateParse e) (VStr s) UTC
               \<noteq> normalizeTimestamp (implDateParse e) (VStr s) (timezone e)
           \<and> fst (isWithinMinutes e (VStr s) m w')
               = js_le (js_sub (Fin (clock e (ticks w')))
                               (Fin (real_of_int
                                  (timeValue y mo d h mi sec ms 0
                                   - (if g1 = Some [0x2D] then - 1 else 1)
                                     * int (groupNumber g2 * 60 + groupNumber g3) * 60000))))
                       (js_mul m (Fin 60000))"
  proof (intro allI impI)
    fix s g1 g2 g3 y mo d h mi sec ms m w'
    assume hyp: "Number (VStr s) = NaN \<and> \<not> hasOffset (trim s)
         \<and> isoBody (replaceSpace (trim s)) = Some (y, mo, d, h, mi, sec, ms)
         \<and> execTz (timezone e) = Some (g1, g2, g3)
         \<and> groupNumber g2 \<le> 23 \<and> groupNumber g3 \<le> 59
         \<and> 0 < groupNumber g2 * 60 + groupNumber g3"
    then have 1: "Number (VStr s) = NaN" and 2: "\<not> hasOffset (trim s)"
      and 3: "isoBody (replaceSpace (trim s)) = Some (y, mo, d, h, mi, sec, ms)"
      and 4: "execTz (timezone e) = Some (g1, g2, g3)"
      and 5: "groupNumber g2 \<le> 23" and 6: "groupNumber g3 \<le> 59"
      and 7: "0 < groupNumber g2 * 60 + groupNumber g3"
      by simp_all
    show "normalizeTimestamp (implDateParse e) (VStr s) UTC
             = Fin (real_of_int (timeValue y mo d h mi sec ms 0))
           \<and> normalizeTimestamp (implDateParse e) (VStr s) (timezone e)
               = Fin (real_of_int
                   (timeValue y mo d h mi sec ms 0
                    - (if g1 = Some [0x2D] then - 1 else 1)
                      * int (groupNumber g2 * 60 + groupNumber g3) * 60000))
           \<and> normalizeTimestamp (implDateParse e) (VStr s) UTC
               \<noteq> normalizeTimestamp (implDateParse e) (VStr s) (timezone e)
           \<and> fst (isWithinMinutes e (VStr s) m w')
               = js_le (js_sub (Fin (clock e (ticks w')))
                               (Fin (real_of_int
                                  (timeValue y mo d h mi sec ms 0
                                   - (if g1 = Some [0x2D] then - 1 else 1)
                                     * int (groupNumber g2 * 60 + groupNumber g3) * 60000))))
                       (js_mul m (Fin 60000))"
      by (rule naive[OF 1 2 3 4 5 6 7])
  qed
  show ?thesis by (rule conjI[OF p1 conjI[OF p2 conjI[OF p3 conjI[OF p4 p5]]]])
qed

theorem ranking_ignores_timezone_witness:
  "Number (VStr (ascii ''2024-01-01 10:00:00'')) = NaN
   \<and> \<not> hasOffset (trim (ascii ''2024-01-01 10:00:00''))
   \<and> isoBody (replaceSpace (trim (ascii ''2024-01-01 10:00:00''))) = Some (2024, 1, 1, 10, 0, 0, 0)
   \<and> execTz (ascii ''UTC+08:00'') = Some (Some [0x2B], Some (ascii ''08''), Some (ascii ''00''))
   \<and> normalizeTimestamp (\<lambda>s. NaN) (VStr (ascii ''2024-01-01 10:00:00'')) UTC
       = Fin 1704103200000
   \<and> normalizeTimestamp (\<lambda>s. NaN) (VStr (ascii ''2024-01-01 11:00:00'')) UTC
       = Fin 1704106800000
   \<and> sortedList (stubEnv (ascii ''UTC+08:00'') (\<lambda>k. 1704103200000) (\<lambda>k. None)) naiveMails
       = [mail (ascii ''second'') (VStr (ascii ''2024-01-01 11:00:00'')),
          mail (ascii ''first'') (VStr (ascii ''2024-01-01 10:00:00''))]
   \<and> sorted_wrt
         (\<lambda>a b. js_le (normalizeTimestamp (\<lambda>s. NaN) (createTime b) UTC)
                      (normalizeTimestamp (\<lambda>s. NaN) (createTime a) UTC))
         (sortedList (stubEnv (ascii ''UTC+08:00'') (\<lambda>k. 1704103200000) (\<lambda>k. None)) naiveMails)
   \<and> normalizeTimestamp (\<lambda>s. NaN) (VStr (ascii ''2024-01-01 10:00:00'')) (ascii ''UTC+08:00'')
       = Fin 1704074400000
   \<and> fst (isWithinMinutes (stubEnv (ascii ''UTC+08:00'') (\<lambda>k. 1704103200000) (\<lambda>k. None))
            (VStr (ascii ''2024-01-01 10:00:00'')) (Fin 3) world0) = False"
proof -
  let ?s = "ascii ''2024-01-01 10:00:00''"
  let ?s' = "ascii ''2024-01-01 11:00:00''"
  let ?e = "stubEnv (ascii ''UTC+08:00'') (\<lambda>k. 1704103200000) (\<lambda>k. None)"
  have n: "Number (VStr ?s) = NaN" by (simp add: number_eval)
  have o: "\<not> hasOffset (trim ?s)" by (simp add: number_eval offsetAt_def)
  have b: "isoBody (replaceSpace (trim ?s)) = Some (2024, 1, 1, 10, 0, 0, 0)"
    by (simp add: date_eval number_eval)
  have x: "execTz (ascii ''UTC+08:00'') = Some (Some [0x2B], Some (ascii ''08''), Some (ascii ''00''))"
    by (simp add: normalize_eval number_eval)
  have g: "groupNumber (Some (ascii ''08'')) = 8" "groupNumber (Some (ascii ''00'')) = 0"
    by (simp_all add: groupNumber_def number_eval)
  have t: "timeValue 2024 1 1 10 0 0 0 0 = 1704103200000"
    by (simp add: date_eval)
  have k10: "normalizeTimestamp (\<lambda>s. NaN) (VStr ?s) UTC = Fin 1704103200000"
    by (simp add: normalize_eval date_eval number_eval)
  have k11: "normalizeTimestamp (\<lambda>s. NaN) (VStr ?s') UTC = Fin 1704106800000"
    by (simp add: normalize_eval date_eval number_eval)
  have ranked: "sortedList ?e naiveMails = [mail (ascii ''second'') (VStr ?s'),
      mail (ascii ''first'') (VStr ?s)]"
    by (simp add: sortedList_def arraySort_def consistentOn_def stableSort_def ltC_def eqC_def
          gtC_def compareFn_def sortKey_def stubEnv_def mail_def naiveMails_def k10 k11)
  have fin: "\<forall>m\<in>set naiveMails.
      \<exists>x. normalizeTimestamp (implDateParse ?e) (createTime m) UTC = Fin x"
    by (simp add: stubEnv_def mail_def naiveMails_def k10 k11)
  have h: "Number (VStr ?s) = NaN \<and> \<not> hasOffset (trim ?s)
      \<and> isoBody (replaceSpace (trim ?s)) = Some (2024, 1, 1, 10, 0, 0, 0)
      \<and> execTz (timezone ?e) = Some (Some [0x2B], Some (ascii ''08''), Some (ascii ''00''))
      \<and> groupNumber (Some (ascii ''08'')) \<le> 23 \<and> groupNumber (Some (ascii ''00'')) \<le> 59
      \<and> 0 < groupNumber (Some (ascii ''08'')) * 60 + groupNumber (Some (ascii ''00''))"
    using n o b x g by (simp add: stubEnv_def)
  from ranking_ignores_timezone[of ?e naiveMails world0] fin
  have srt: "sorted_wrt
         (\<lambda>a b. js_le (normalizeTimestamp (implDateParse ?e) (createTime b) UTC)
                      (normalizeTimestamp (implDateParse ?e) (createTime a) UTC))
         (sortedList ?e naiveMails)"
    by blast
  from ranking_ignores_timezone[of ?e naiveMails world0] h
  have r: "normalizeTimestamp (implDateParse ?e) (VStr ?s) (timezone ?e)
          = Fin (real_of_int
              (timeValue 2024 1 1 10 0 0 0 0
               - (if Some [0x2B] = Some [0x2D::nat] then - 1 else 1)
                 * int (groupNumber (Some (ascii ''08'')) * 60 + groupNumber (Some (ascii ''00'')))
                 * 60000))
      \<and> fst (isWithinMinutes ?e (VStr ?s) (Fin 3) world0)
          = js_le (js_sub (Fin (clock ?e (ticks world0)))
                          (Fin (real_of_int
                             (timeValue 2024 1 1 10 0 0 0 0
                              - (if Some [0x2B] = Some [0x2D::nat] then - 1 else 1)
                                * int (groupNumber (Some (ascii ''08'')) * 60
                                       + groupNumber (Some (ascii ''00'')))
                                * 60000))))
                  (js_mul (Fin 3) (Fin 60000))"
    by blast
  from r t g
  have i: "normalizeTimestamp (\<lambda>s. NaN) (VStr ?s) (ascii ''UTC+08:00'') = Fin 1704074400000"
    and f: "fst (isWithinMinutes ?e (VStr ?s) (Fin 3) world0) = False"
    by (simp_all add: stubEnv_def world0_def)
  from srt have srt': "sorted_wrt
         (\<lambda>a b. js_le (normalizeTimestamp (\<lambda>s. NaN) (createTime b) UTC)
                      (normalizeTimestamp (\<lambda>s. NaN) (createTime a) UTC))
         (sortedList ?e naiveMails)"
    by (simp add: stubEnv_def)
  from n o b x k10 k11 ranked srt' i f show ?thesis by simp
qed

end
